theory Spec2Isabelle
  imports Main "HOL-Library.Word"
begin

unbundle bit_operations_syntax

section \<open>Strings of the source language\<close>

text \<open>
  A string of the source is a sequence of UTF-16 code units. String literals of the
  source are written \<open>js ''...''\<close>; the double quote is the code unit \<open>0x22\<close> and the
  line feed is \<open>nl\<close>.
\<close>

type_synonym jschar = "16 word"
type_synonym jsstring = "jschar list"

definition js :: "string \<Rightarrow> jsstring" where
  "js s = map of_char s"

definition nl :: jschar where
  "nl = 0x0A"

definition dquote :: jschar where
  "dquote = 0x22"

text \<open>
  The white space of \<open>String.prototype.trim\<close> and of the class \<open>\s\<close>: the WhiteSpace
  and LineTerminator code points (TAB, LF, VT, FF, CR, SP, NBSP, the space separators
  U+1680, U+2000 to U+200A, U+202F, U+205F, U+3000, the separators U+2028 and U+2029, and
  U+FEFF).
\<close>

definition is_ws :: "jschar \<Rightarrow> bool" where
  "is_ws c \<longleftrightarrow> c \<in> {0x09, 0x0A, 0x0B, 0x0C, 0x0D, 0x20, 0xA0, 0x1680,
     0x2000, 0x2001, 0x2002, 0x2003, 0x2004, 0x2005, 0x2006, 0x2007, 0x2008, 0x2009, 0x200A,
     0x2028, 0x2029, 0x202F, 0x205F, 0x3000, 0xFEFF}"

text \<open>The class \<open>\d\<close>: the ten ASCII digits.\<close>

definition is_digit :: "jschar \<Rightarrow> bool" where
  "is_digit c \<longleftrightarrow> 0x30 \<le> c \<and> c \<le> 0x39"

text \<open>\<open>s.trim()\<close>: white space removed at both ends.\<close>

definition trim :: "jsstring \<Rightarrow> jsstring" where
  "trim s = rev (dropWhile is_ws (rev (dropWhile is_ws s)))"

text \<open>
  \<open>s.replace(/\n{2,}/g, "\n")\<close>: scanning from the left, a position where two line
  feeds start is the start of a match; the match is greedy, so it takes the whole run, and
  one line feed replaces it. Any other code unit is copied.
\<close>

function collapse :: "jsstring \<Rightarrow> jsstring" where
  "collapse [] = []"
| "collapse (c # cs) =
     (if c = nl \<and> cs \<noteq> [] \<and> hd cs = nl
      then nl # collapse (dropWhile (\<lambda>x. x = nl) cs)
      else c # collapse cs)"
  by pat_completeness auto
termination
  by (relation "measure length") (auto simp: less_Suc_eq_le length_dropWhile_le)

text \<open>\<open>s.split("\n")\<close>: the segments between line feeds; one more segment than line feeds.\<close>

fun split_nl :: "jsstring \<Rightarrow> jsstring list" where
  "split_nl [] = [[]]"
| "split_nl (c # cs) =
     (if c = nl then [] # split_nl cs
      else (case split_nl cs of [] \<Rightarrow> [[c]] | s # ss \<Rightarrow> (c # s) # ss))"

text \<open>
  \<open>s.replace(/^\d+\.\s+/, "")\<close>: the pattern is anchored at the start and has no \<open>g\<close>
  flag. \<open>\d+\<close> takes every leading digit (a shorter choice would leave a digit where the
  dot is required), then a dot and at least one white space must follow; \<open>\s+\<close> is greedy
  and takes the whole run. Without a match the string is returned as it is.
\<close>

definition strip_enum :: "jsstring \<Rightarrow> jsstring" where
  "strip_enum s =
     (let ds = takeWhile is_digit s; r = dropWhile is_digit s in
      if ds = [] then s
      else (case r of
              [] \<Rightarrow> s
            | c # r' \<Rightarrow>
                if c = 0x2E \<and> r' \<noteq> [] \<and> is_ws (hd r') then dropWhile is_ws r' else s))"

section \<open>Question parser\<close>

text \<open>
  The tail of \<open>generateQuestions\<close>: the completion text is split at line feeds, every
  segment goes through \<open>trim\<close>, the two \<open>replace\<close> calls, and the empty results are
  filtered out.
\<close>

definition parseQuestions :: "jsstring \<Rightarrow> jsstring list" where
  "parseQuestions raw =
     filter (\<lambda>question. length question > 0)
       (map (\<lambda>question. strip_enum (collapse (trim question))) (split_nl raw))"

text \<open>
  The parser in the words of the specification: split, trim, strip the marker, discard
  what is empty.
\<close>

definition parser_spec :: "jsstring \<Rightarrow> jsstring list" where
  "parser_spec raw = filter (\<lambda>q. q \<noteq> []) (map (\<lambda>seg. strip_enum (trim seg)) (split_nl raw))"

section \<open>Preprocessor\<close>

text \<open>The string part of \<open>preProcessDocuments\<close>: \<open>replace(/\n{2,}/g, "\n").trim()\<close>.\<close>

definition preprocess :: "jsstring \<Rightarrow> jsstring" where
  "preprocess s = trim (collapse s)"

text \<open>No two adjacent line feeds.\<close>

fun squeezed :: "jsstring \<Rightarrow> bool" where
  "squeezed [] = True"
| "squeezed [c] = True"
| "squeezed (a # b # cs) = ((a \<noteq> nl \<or> b \<noteq> nl) \<and> squeezed (b # cs))"


text \<open>The segment starts with a digit.\<close>

definition leading_digit :: "jsstring \<Rightarrow> bool" where
  "leading_digit s = (case s of [] \<Rightarrow> False | c # _ \<Rightarrow> is_digit c)"

section \<open>Documents\<close>

text \<open>
  The values a metadata field can hold, as far as serialisation to JSON tells them apart:
  \<open>undefined\<close>, \<open>null\<close>, booleans, numbers (an IEEE 754 double, given by its 64 bits),
  strings, arrays and plain objects (own enumerable properties in property order).
  Functions, symbols, big integers and objects with a serialisation of their own (dates)
  are not modelled.
\<close>

datatype jsval =
    JUndefined
  | JNull
  | JBool bool
  | JNum "64 word"
  | JStr jsstring
  | JArr "jsval list"
  | JObj "(jsstring \<times> jsval) list"

text \<open>A \<open>Document\<close> of the loader library: \<open>pageContent\<close> and \<open>metadata\<close>.\<close>

record Document =
  pageContent :: jsstring
  metadata :: "(jsstring \<times> jsval) list"

text \<open>
  \<open>preProcessDocuments\<close>: every document is copied with its \<open>pageContent\<close> replaced.
\<close>

definition preProcessDocuments :: "Document list \<Rightarrow> Document list" where
  "preProcessDocuments documents =
     map (\<lambda>document. document\<lparr>pageContent := preprocess (pageContent document)\<rparr>) documents"

section \<open>Prompt\<close>

text \<open>
  \<open>s.replace(pattern, replacement)\<close> with a string pattern: only the first occurrence is
  replaced, and the replacement string is expanded first: \<open>$$\<close> is a dollar sign, \<open>$&\<close>
  the matched text, \<open>$`\<close> the text before the match, \<open>$'\<close> the text after it. A string
  pattern has no capture groups, so \<open>$1\<close> to \<open>$99\<close> and \<open>$<\<close> stay as they are.
\<close>

fun starts_with :: "jsstring \<Rightarrow> jsstring \<Rightarrow> bool" where
  "starts_with [] s = True"
| "starts_with (p # ps) [] = False"
| "starts_with (p # ps) (c # cs) = (p = c \<and> starts_with ps cs)"

text \<open>The text before and after the first occurrence of the pattern.\<close>

fun find_first :: "jsstring \<Rightarrow> jsstring \<Rightarrow> (jsstring \<times> jsstring) option" where
  "find_first pat [] = (if pat = [] then Some ([], []) else None)"
| "find_first pat (c # cs) =
     (if starts_with pat (c # cs) then Some ([], drop (length pat) (c # cs))
      else (case find_first pat cs of
              None \<Rightarrow> None
            | Some (front, back) \<Rightarrow> Some (c # front, back)))"

fun get_substitution :: "jsstring \<Rightarrow> jsstring \<Rightarrow> jsstring \<Rightarrow> jsstring \<Rightarrow> jsstring" where
  "get_substitution matched front back [] = []"
| "get_substitution matched front back [c] = [c]"
| "get_substitution matched front back (c # d # r) =
     (if c = 0x24 \<and> d = 0x24 then 0x24 # get_substitution matched front back r
      else if c = 0x24 \<and> d = 0x26 then matched @ get_substitution matched front back r
      else if c = 0x24 \<and> d = 0x60 then front @ get_substitution matched front back r
      else if c = 0x24 \<and> d = 0x27 then back @ get_substitution matched front back r
      else c # get_substitution matched front back (d # r))"

definition String_replace :: "jsstring \<Rightarrow> jsstring \<Rightarrow> jsstring \<Rightarrow> jsstring" where
  "String_replace s pat replacement =
     (case find_first pat s of
        None \<Rightarrow> s
      | Some (front, back) \<Rightarrow> front @ get_substitution pat front back replacement @ back)"

text \<open>
  \<open>n.toString()\<close> for an integral number below \<open>10^21\<close> in absolute value: the decimal
  digits, with a minus sign for a negative number. The other values of a JavaScript
  number (a fraction, \<open>NaN\<close>, an infinity, and an integral number from \<open>10^21\<close> on,
  which prints in exponent form) are not covered: the function stands for \<open>toString\<close>
  on the integers of that range only.
\<close>

function digits_of :: "nat \<Rightarrow> jsstring" where
  "digits_of n = (if n < 10 then [0x30 + of_nat n] else digits_of (n div 10) @ [0x30 + of_nat (n mod 10)])"
  by pat_completeness auto
termination
  by (relation "measure id") auto

definition Number_toString :: "int \<Rightarrow> jsstring" where
  "Number_toString i = (if i < 0 then 0x2D # digits_of (nat (- i)) else digits_of (nat i))"

definition PROMPT_TEMPLATE :: jsstring where
  "PROMPT_TEMPLATE =
     js ''Expert Question Generator, style of Gladwell & Pink. Analyze: '' @ [dquote]
     @ js ''{document}'' @ [dquote]
     @ js '', generate {numQuestions} diverse, comprehensive questions, adjustable complexity, for students to professionals. Skip with a single ''
     @ [nl] @ js ''. No answers.''"

text \<open>The prompt that \<open>generateQuestions\<close> builds from the template.\<close>

definition build_prompt :: "Document \<Rightarrow> int \<Rightarrow> jsstring" where
  "build_prompt document questionsPerDocument =
     String_replace
       (String_replace PROMPT_TEMPLATE (js ''{document}'') (pageContent document))
       (js ''{questions}'') (Number_toString questionsPerDocument)"

text \<open>
  The template with both placeholders filled in, as the documentation of
  \<open>PROMPT_TEMPLATE\<close> names them: \<open>{document}\<close> and \<open>{numQuestions}\<close>.
\<close>

definition prompt_spec :: "jsstring \<Rightarrow> int \<Rightarrow> jsstring" where
  "prompt_spec content n =
     js ''Expert Question Generator, style of Gladwell & Pink. Analyze: '' @ [dquote]
     @ content @ [dquote]
     @ js '', generate '' @ Number_toString n
     @ js '' diverse, comprehensive questions, adjustable complexity, for students to professionals. Skip with a single ''
     @ [nl] @ js ''. No answers.''"

text \<open>Errors of the collaborators, as the specification names them.\<close>

datatype error = IOError | LoaderError | CompletionError | SyntaxError

text \<open>
  \<open>generateQuestions\<close>: the completion client \<open>openai\<close> answers the prompt with a text
  or fails; a failure is the failure of \<open>generateQuestions\<close>.
\<close>

definition generateQuestions ::
  "Document \<Rightarrow> (jsstring \<Rightarrow> error + jsstring) \<Rightarrow> int \<Rightarrow> error + jsstring list" where
  "generateQuestions document openai questionsPerDocument =
     (case openai (build_prompt document questionsPerDocument) of
        Inl e \<Rightarrow> Inl e
      | Inr completion \<Rightarrow> Inr (parseQuestions completion))"

section \<open>Hashing\<close>

text \<open>
  \<open>hash\<close> is \<open>createHash("md5").update(input).digest("hex")\<close>: the string is
  encoded in UTF-8, the bytes are hashed with MD5, and the sixteen bytes of the digest
  are written as thirty-two lower-case hexadecimal digits. The hash function belongs to
  the runtime; it is modelled after RFC 1321.
\<close>

type_synonym byte = "8 word"

text \<open>
  UTF-8 of a string of UTF-16 code units: a high surrogate followed by a low surrogate
  is one code point, a surrogate on its own is encoded as U+FFFD.
\<close>

definition is_high_surrogate :: "jschar \<Rightarrow> bool" where
  "is_high_surrogate c \<longleftrightarrow> 0xD800 \<le> c \<and> c \<le> 0xDBFF"

definition is_low_surrogate :: "jschar \<Rightarrow> bool" where
  "is_low_surrogate c \<longleftrightarrow> 0xDC00 \<le> c \<and> c \<le> 0xDFFF"

definition utf8_of_code_point :: "nat \<Rightarrow> byte list" where
  "utf8_of_code_point cp =
     (if cp < 0x80 then [of_nat cp]
      else if cp < 0x800 then [of_nat (0xC0 + cp div 64), of_nat (0x80 + cp mod 64)]
      else if cp < 0x10000 then
        [of_nat (0xE0 + cp div 4096), of_nat (0x80 + (cp div 64) mod 64), of_nat (0x80 + cp mod 64)]
      else
        [of_nat (0xF0 + cp div 262144), of_nat (0x80 + (cp div 4096) mod 64),
         of_nat (0x80 + (cp div 64) mod 64), of_nat (0x80 + cp mod 64)])"

fun utf8_encode :: "jsstring \<Rightarrow> byte list" where
  "utf8_encode [] = []"
| "utf8_encode [c] =
     (if is_high_surrogate c \<or> is_low_surrogate c then utf8_of_code_point 0xFFFD
      else utf8_of_code_point (unat c))"
| "utf8_encode (c # d # r) =
     (if is_high_surrogate c \<and> is_low_surrogate d
      then utf8_of_code_point (0x10000 + (unat c - 0xD800) * 1024 + (unat d - 0xDC00))
           @ utf8_encode r
      else if is_high_surrogate c \<or> is_low_surrogate c
      then utf8_of_code_point 0xFFFD @ utf8_encode (d # r)
      else utf8_of_code_point (unat c) @ utf8_encode (d # r))"

text \<open>The constants of the 64 steps: \<open>floor (2^32 * abs (sin (i + 1)))\<close>, and the shifts.\<close>

definition md5_K :: "32 word list" where
  "md5_K = [
      0xd76aa478, 0xe8c7b756, 0x242070db, 0xc1bdceee, 0xf57c0faf, 0x4787c62a, 0xa8304613,
      0xfd469501, 0x698098d8, 0x8b44f7af, 0xffff5bb1, 0x895cd7be, 0x6b901122, 0xfd987193,
      0xa679438e, 0x49b40821, 0xf61e2562, 0xc040b340, 0x265e5a51, 0xe9b6c7aa, 0xd62f105d,
      0x02441453, 0xd8a1e681, 0xe7d3fbc8, 0x21e1cde6, 0xc33707d6, 0xf4d50d87, 0x455a14ed,
      0xa9e3e905, 0xfcefa3f8, 0x676f02d9, 0x8d2a4c8a, 0xfffa3942, 0x8771f681, 0x6d9d6122,
      0xfde5380c, 0xa4beea44, 0x4bdecfa9, 0xf6bb4b60, 0xbebfbc70, 0x289b7ec6, 0xeaa127fa,
      0xd4ef3085, 0x04881d05, 0xd9d4d039, 0xe6db99e5, 0x1fa27cf8, 0xc4ac5665, 0xf4292244,
      0x432aff97, 0xab9423a7, 0xfc93a039, 0x655b59c3, 0x8f0ccc92, 0xffeff47d, 0x85845dd1,
      0x6fa87e4f, 0xfe2ce6e0, 0xa3014314, 0x4e0811a1, 0xf7537e82, 0xbd3af235, 0x2ad7d2bb,
      0xeb86d391]"

definition md5_s :: "nat list" where
  "md5_s = [7, 12, 17, 22, 7, 12, 17, 22, 7, 12, 17, 22, 7, 12, 17, 22,
            5, 9, 14, 20, 5, 9, 14, 20, 5, 9, 14, 20, 5, 9, 14, 20,
            4, 11, 16, 23, 4, 11, 16, 23, 4, 11, 16, 23, 4, 11, 16, 23,
            6, 10, 15, 21, 6, 10, 15, 21, 6, 10, 15, 21, 6, 10, 15, 21]"

text \<open>Rotation to the left, and 32-bit words in little-endian byte order.\<close>

definition rotl32 :: "nat \<Rightarrow> 32 word \<Rightarrow> 32 word" where
  "rotl32 n w = push_bit n w OR drop_bit (32 - n) w"

definition le32 :: "byte list \<Rightarrow> 32 word" where
  "le32 bs = ucast (bs ! 0) OR push_bit 8 (ucast (bs ! 1))
             OR push_bit 16 (ucast (bs ! 2)) OR push_bit 24 (ucast (bs ! 3))"

definition bytes_le32 :: "32 word \<Rightarrow> byte list" where
  "bytes_le32 w = [ucast w, ucast (drop_bit 8 w), ucast (drop_bit 16 w), ucast (drop_bit 24 w)]"

text \<open>
  Padding: the byte \<open>0x80\<close>, zero bytes up to 56 modulo 64, then the length of the
  message in bits as 64 bits in little-endian order.
\<close>

definition md5_pad :: "byte list \<Rightarrow> byte list" where
  "md5_pad m =
     (let bits = (of_nat (8 * length m) :: 64 word) in
      m @ [0x80] @ replicate ((119 - length m mod 64) mod 64) 0
        @ map (\<lambda>i. ucast (drop_bit (8 * i) bits)) [0..<8])"

text \<open>One step of the compression function on the state \<open>(a, b, c, d)\<close>.\<close>

definition md5_step ::
  "32 word list \<Rightarrow> 32 word \<times> 32 word \<times> 32 word \<times> 32 word \<Rightarrow> nat
     \<Rightarrow> 32 word \<times> 32 word \<times> 32 word \<times> 32 word" where
  "md5_step M st i =
     (case st of (a, b, c, d) \<Rightarrow>
        let f = (if i < 16 then (b AND c) OR (NOT b AND d)
                 else if i < 32 then (d AND b) OR (NOT d AND c)
                 else if i < 48 then b XOR c XOR d
                 else c XOR (b OR NOT d));
            g = (if i < 16 then i
                 else if i < 32 then (5 * i + 1) mod 16
                 else if i < 48 then (3 * i + 5) mod 16
                 else (7 * i) mod 16)
        in (d, b + rotl32 (md5_s ! i) (f + a + md5_K ! i + M ! g), b, c))"

text \<open>One block of 64 bytes: its sixteen words, the 64 steps, and the sum with the state.\<close>

definition md5_block ::
  "32 word \<times> 32 word \<times> 32 word \<times> 32 word \<Rightarrow> byte list
     \<Rightarrow> 32 word \<times> 32 word \<times> 32 word \<times> 32 word" where
  "md5_block st blk =
     (let M = map (\<lambda>j. le32 (take 4 (drop (4 * j) blk))) [0..<16] in
      case (st, foldl (md5_step M) st [0..<64]) of
        ((a0, b0, c0, d0), (a, b, c, d)) \<Rightarrow> (a0 + a, b0 + b, c0 + c, d0 + d))"

function md5_blocks ::
  "32 word \<times> 32 word \<times> 32 word \<times> 32 word \<Rightarrow> byte list
     \<Rightarrow> 32 word \<times> 32 word \<times> 32 word \<times> 32 word" where
  "md5_blocks st bs =
     (if length bs < 64 then st else md5_blocks (md5_block st (take 64 bs)) (drop 64 bs))"
  by pat_completeness auto
termination
  by (relation "measure (\<lambda>(st, bs). length bs)") auto

definition md5 :: "byte list \<Rightarrow> byte list" where
  "md5 m =
     (case md5_blocks (0x67452301, 0xefcdab89, 0x98badcfe, 0x10325476) (md5_pad m) of
        (a, b, c, d) \<Rightarrow> bytes_le32 a @ bytes_le32 b @ bytes_le32 c @ bytes_le32 d)"

text \<open>The digest in hexadecimal digits.\<close>

definition hex_digit :: "nat \<Rightarrow> jschar" where
  "hex_digit n = (if n < 10 then 0x30 + of_nat n else 0x57 + of_nat n)"

definition hex :: "byte list \<Rightarrow> jsstring" where
  "hex bs = concat (map (\<lambda>b. [hex_digit (unat b div 16), hex_digit (unat b mod 16)]) bs)"

definition hash :: "jsstring \<Rightarrow> jsstring" where
  "hash input = hex (md5 (utf8_encode input))"

section \<open>Directory fingerprint\<close>

text \<open>
  A file of the document directory as \<open>getDirectoryHash\<close> and the loader see it: the
  path that \<open>glob\<close> returns for it, the outcome of \<open>fs.stat\<close> on it (the \<open>mtimeMs\<close>
  of the file, or an error), and its content. The directory is the list of its files in
  the order in which \<open>glob\<close> enumerates them. The type \<open>'t\<close> stands for the numbers
  that \<open>mtimeMs\<close> can be.
\<close>

record 't dirfile =
  fname :: jsstring
  fstat :: "error + 't"
  fcontent :: "byte list"

text \<open>\<open>xs.join(sep)\<close>.\<close>

fun join :: "jsstring \<Rightarrow> jsstring list \<Rightarrow> jsstring" where
  "join sep [] = []"
| "join sep [x] = x"
| "join sep (x # y # r) = x @ sep @ join sep (y # r)"

text \<open>
  \<open>Promise.all\<close> over settled promises: the list of the values, or an error as soon as
  one promise is rejected.
\<close>

fun promise_all :: "(error + 'a) list \<Rightarrow> error + 'a list" where
  "promise_all [] = Inr []"
| "promise_all (Inl e # r) = Inl e"
| "promise_all (Inr v # r) = (case promise_all r of Inl e \<Rightarrow> Inl e | Inr vs \<Rightarrow> Inr (v # vs))"

text \<open>
  The template literal \<open>`${file}:${mtimeMs}`\<close> of one file; \<open>num_str\<close> is the conversion
  of the number \<open>mtimeMs\<close> to a string.
\<close>

definition fileInfo :: "('t \<Rightarrow> jsstring) \<Rightarrow> 't dirfile \<Rightarrow> error + jsstring" where
  "fileInfo num_str f =
     (case fstat f of Inl e \<Rightarrow> Inl e | Inr mtimeMs \<Rightarrow> Inr (fname f @ js '':'' @ num_str mtimeMs))"

text \<open>The string that \<open>getDirectoryHash\<close> hashes: \<open>fileInfos.join(",")\<close>.\<close>

definition fingerprint_input :: "('t \<Rightarrow> jsstring) \<Rightarrow> 't dirfile list \<Rightarrow> error + jsstring" where
  "fingerprint_input num_str files =
     (case promise_all (map (fileInfo num_str) files) of
        Inl e \<Rightarrow> Inl e
      | Inr fileInfos \<Rightarrow> Inr (join (js '','') fileInfos))"

definition getDirectoryHash :: "('t \<Rightarrow> jsstring) \<Rightarrow> 't dirfile list \<Rightarrow> error + jsstring" where
  "getDirectoryHash num_str files =
     (case fingerprint_input num_str files of
        Inl e \<Rightarrow> Inl e
      | Inr joined \<Rightarrow> Inr (hash joined))"

text \<open>The pairs of path and modification time of a directory, as a set.\<close>

definition path_mtime_set :: "'t dirfile list \<Rightarrow> (jsstring \<times> (error + 't)) set" where
  "path_mtime_set files = set (map (\<lambda>f. (fname f, fstat f)) files)"

section \<open>JSON serialisation\<close>

text \<open>
  \<open>JSON.stringify\<close> and \<open>JSON.parse\<close> belong to the language, not to the repository.
  They are modelled by the value that the text of \<open>JSON.stringify v\<close> parses to:
  \<^item> \<open>undefined\<close> has no text (\<open>None\<close>); as an array element it becomes \<open>null\<close>, as a
    property value the property is left out;
  \<^item> a number that is not finite (exponent bits all set: NaN and the infinities) becomes
    \<open>null\<close>, minus zero becomes zero, every other number is read back as it was;
  \<^item> \<open>null\<close>, booleans and strings are read back as they were, arrays and objects
    element by element.
\<close>

definition is_finite :: "64 word \<Rightarrow> bool" where
  "is_finite w \<longleftrightarrow> drop_bit 52 w AND 0x7FF \<noteq> 0x7FF"

definition minus_zero :: "64 word" where
  "minus_zero = 0x8000000000000000"

definition json_number :: "64 word \<Rightarrow> jsval" where
  "json_number w =
     (if is_finite w then JNum (if w = minus_zero then 0 else w) else JNull)"

definition json_element :: "jsval option \<Rightarrow> jsval" where
  "json_element r = (case r of None \<Rightarrow> JNull | Some v \<Rightarrow> v)"

definition json_property :: "jsstring \<times> jsval option \<Rightarrow> (jsstring \<times> jsval) list" where
  "json_property kv = (case snd kv of None \<Rightarrow> [] | Some v \<Rightarrow> [(fst kv, v)])"

primrec json_of :: "jsval \<Rightarrow> jsval option" where
  "json_of JUndefined = None"
| "json_of JNull = Some JNull"
| "json_of (JBool b) = Some (JBool b)"
| "json_of (JNum w) = Some (json_number w)"
| "json_of (JStr s) = Some (JStr s)"
| "json_of (JArr xs) = Some (JArr (map json_element (map json_of xs)))"
| "json_of (JObj kvs) = Some (JObj (concat (map json_property (map (map_prod id json_of) kvs))))"

text \<open>
  A value that serialisation keeps: no \<open>undefined\<close> anywhere, every number finite and
  not minus zero.
\<close>

primrec json_clean :: "jsval \<Rightarrow> bool" where
  "json_clean JUndefined = False"
| "json_clean JNull = True"
| "json_clean (JBool b) = True"
| "json_clean (JNum w) = (is_finite w \<and> w \<noteq> minus_zero)"
| "json_clean (JStr s) = True"
| "json_clean (JArr xs) = list_all id (map json_clean xs)"
| "json_clean (JObj kvs) = list_all snd (map (map_prod id json_clean) kvs)"

text \<open>
  What a file holds, as far as \<open>JSON.parse\<close> tells: a text that parses, given by the
  value it parses to, or bytes that make \<open>JSON.parse\<close> throw.
\<close>

datatype content = JSONText jsval | Unparsable "byte list"

definition JSON_stringify :: "jsval \<Rightarrow> content option" where
  "JSON_stringify v = map_option JSONText (json_of v)"

definition JSON_parse :: "content \<Rightarrow> error + jsval" where
  "JSON_parse c = (case c of JSONText v \<Rightarrow> Inr v | Unparsable bs \<Rightarrow> Inl SyntaxError)"

text \<open>A document and an array of documents as values of the language.\<close>

definition document_value :: "Document \<Rightarrow> jsval" where
  "document_value d = JObj [(js ''pageContent'', JStr (pageContent d)), (js ''metadata'', JObj (metadata d))]"

definition documents_value :: "Document list \<Rightarrow> jsval" where
  "documents_value docs = JArr (map document_value docs)"

section \<open>Document cache and ingestion\<close>

text \<open>
  The calls that ingestion makes to its collaborators, in the order in which it makes
  them.
\<close>

datatype call = Glob | Stat jsstring | ReadTMP jsstring | WriteTMP jsstring | Load

text \<open>
  The state outside the process: the files of \<open>os.tmpdir()\<close> by name, the names that can
  be written there, and the calls made so far.
\<close>

record world =
  tmp :: "jsstring \<rightharpoonup> content"
  writable :: "jsstring \<Rightarrow> bool"
  calls :: "call list"

text \<open>The file name \<open>`QG_${id}.bin`\<close>.\<close>

definition tmp_name :: "jsstring \<Rightarrow> jsstring" where
  "tmp_name ident = js ''QG_'' @ ident @ js ''.bin''"

definition cacheTMP :: "jsstring \<Rightarrow> content \<Rightarrow> world \<Rightarrow> (error + unit) \<times> world" where
  "cacheTMP ident data w =
     (if writable w (tmp_name ident)
      then (Inr (), w\<lparr>tmp := (tmp w)(tmp_name ident \<mapsto> data), calls := calls w @ [WriteTMP ident]\<rparr>)
      else (Inl IOError, w\<lparr>calls := calls w @ [WriteTMP ident]\<rparr>))"

definition readTMP :: "jsstring \<Rightarrow> world \<Rightarrow> (error + content) \<times> world" where
  "readTMP ident w =
     (case tmp w (tmp_name ident) of
        None \<Rightarrow> Inl IOError
      | Some data \<Rightarrow> Inr data,
      w\<lparr>calls := calls w @ [ReadTMP ident]\<rparr>)"

text \<open>
  The \<open>try\<close> block of \<open>loadDocuments\<close>: \<open>readTMP\<close>, then \<open>JSON.parse\<close>; the \<open>catch\<close>
  swallows the error of either, which is a miss (\<open>None\<close>). The parsed value is returned
  as it is.
\<close>

definition cache_get :: "jsstring \<Rightarrow> world \<Rightarrow> jsval option \<times> world" where
  "cache_get pathHash w =
     (case readTMP pathHash w of
        (Inl e, w') \<Rightarrow> (None, w')
      | (Inr cachedData, w') \<Rightarrow>
          (case JSON_parse cachedData of Inl e \<Rightarrow> (None, w') | Inr v \<Rightarrow> (Some v, w')))"

text \<open>
  The store of \<open>loadDocuments\<close>: \<open>cacheTMP(pathHash, Buffer.from(JSON.stringify(docs)))\<close>.
  The text of an array always exists, so the first branch is never taken.
\<close>

definition cache_put :: "jsstring \<Rightarrow> Document list \<Rightarrow> world \<Rightarrow> (error + unit) \<times> world" where
  "cache_put pathHash docs w =
     (case JSON_stringify (documents_value docs) of
        None \<Rightarrow> (Inl IOError, w)
      | Some data \<Rightarrow> cacheTMP pathHash data w)"

text \<open>
  \<open>getDirectoryHash\<close> with its calls: one \<open>glob\<close>, then one \<open>fs.stat\<close> for every file.
\<close>

definition getDirectoryHash_calls :: "'t dirfile list \<Rightarrow> call list" where
  "getDirectoryHash_calls files = Glob # map (\<lambda>f. Stat (fname f)) files"

text \<open>
  \<open>loadDocuments\<close>. The loader \<open>loader\<close> answers for the directory with documents or
  fails; the messages of the spinner are not modelled. The result is the value that the
  caller receives: the array of the documents on a full load, whatever the cache entry
  parses to on a hit.
\<close>

definition loadDocuments ::
  "('t dirfile list \<Rightarrow> error + Document list) \<Rightarrow> ('t \<Rightarrow> jsstring) \<Rightarrow> 't dirfile list \<Rightarrow> bool \<Rightarrow> world
     \<Rightarrow> (error + jsval) \<times> world" where
  "loadDocuments loader num_str files cache w =
     (if \<not> cache then
        (case loader files of
           Inl e \<Rightarrow> (Inl e, w\<lparr>calls := calls w @ [Load]\<rparr>)
         | Inr docs \<Rightarrow>
             (Inr (documents_value (preProcessDocuments docs)), w\<lparr>calls := calls w @ [Load]\<rparr>))
      else
        let w1 = w\<lparr>calls := calls w @ getDirectoryHash_calls files\<rparr> in
        (case getDirectoryHash num_str files of
           Inl e \<Rightarrow> (Inl e, w1)
         | Inr pathHash \<Rightarrow>
             (case cache_get pathHash w1 of
                (Some cached, w2) \<Rightarrow> (Inr cached, w2)
              | (None, w2) \<Rightarrow>
                  let w3 = w2\<lparr>calls := calls w2 @ [Load]\<rparr> in
                  (case loader files of
                     Inl e \<Rightarrow> (Inl e, w3)
                   | Inr docs \<Rightarrow>
                       let processedDocuments = preProcessDocuments docs in
                       (case cache_put pathHash processedDocuments w3 of
                          (Inl e, w4) \<Rightarrow> (Inl e, w4)
                        | (Inr u, w4) \<Rightarrow> (Inr (documents_value processedDocuments), w4))))))"



section \<open>Batch runner\<close>

text \<open>
  The part of \<open>execute\<close> that follows the loading of the documents: one asynchronous
  task per document under \<open>Promise.all\<close>, then the message of \<open>spinner.succeed\<close>. All
  tasks start at once and each runs up to its call of the completion client. From there
  the run is driven by the events of the outside world, in the order in which they
  happen: the completion call of document \<open>i\<close> settles, with a text or with an error, and
  the write of the output file that task \<open>i\<close> has started settles, with success or with
  an error.
\<close>

datatype event =
    Completion nat "error + jsstring"
  | Written nat
  | WriteFailed nat error

text \<open>
  A task waits for its completion call (\<open>Calling\<close>), waits for \<open>fs.writeFile\<close> with
  the text of the array as it was when the task pushed its questions (\<open>Writing\<close>), or has
  settled.
\<close>

datatype task = Calling | Writing "jsstring list list" | Fulfilled | Rejected error

datatype outcome = Pending | Resolved | Failed error

text \<open>
  The output file. \<open>fs.writeFile\<close> opens the file for writing, which empties it, writes
  the text and closes the file, and the calls of the tasks are not serialised. A write
  that overlapped no other write leaves the text of its array in the file (\<open>Holds\<close>).
  When two writes overlap, the order of their steps is not in the hands of the program:
  the file can end up with either text, with a mixture of both or with a part of one.
  The content is then not determined (\<open>Indeterminate\<close>), and so it is after a write that
  failed.
\<close>

datatype file_state = Unwritten | Holds "jsstring list list" | Indeterminate

text \<open>
  The state of a run: the tasks by document index, the array \<open>questions\<close>, the state of
  the output file, whether a write has started while another one was in flight and
  writes have been in flight ever since (\<open>overlapped\<close>), the state of the promise of
  \<open>Promise.all\<close>, and the message of \<open>spinner.succeed\<close> once it has been shown.
\<close>

record run =
  tasks :: "task list"
  questions :: "jsstring list list"
  output_file :: file_state
  overlapped :: bool
  outcome :: outcome
  summary :: "jsstring option"

text \<open>Some task waits for its write.\<close>

definition writing :: "task \<Rightarrow> bool" where
  "writing t = (case t of Writing snapshot \<Rightarrow> True | _ \<Rightarrow> False)"

definition in_flight :: "task list \<Rightarrow> bool" where
  "in_flight ts = list_ex writing ts"

text \<open>
  The message \<open>`Generated ${questions.flat().length} questions for ${documents.length}
  documents in "${options.output}".`\<close>
\<close>

definition succeed_text :: "jsstring list list \<Rightarrow> nat \<Rightarrow> jsstring \<Rightarrow> jsstring" where
  "succeed_text qs ndocs output =
     js ''Generated '' @ Number_toString (int (length (concat qs)))
     @ js '' questions for '' @ Number_toString (int ndocs)
     @ js '' documents in '' @ [dquote] @ output @ [dquote] @ js ''.''"

text \<open>
  \<open>Promise.all\<close> is fulfilled once every task is fulfilled; \<open>execute\<close> then goes on to
  \<open>spinner.succeed\<close>. It is rejected by the first task that is rejected; \<open>execute\<close> has
  no handler, so the rejection is the result of \<open>execute\<close> and the code after
  \<open>Promise.all\<close> does not run.
\<close>

definition all_fulfilled :: "task list \<Rightarrow> bool" where
  "all_fulfilled ts = list_all (\<lambda>t. t = Fulfilled) ts"

definition resolve_all :: "nat \<Rightarrow> jsstring \<Rightarrow> run \<Rightarrow> run" where
  "resolve_all ndocs output st =
     (if outcome st = Pending \<and> all_fulfilled (tasks st)
      then st\<lparr>outcome := Resolved, summary := Some (succeed_text (questions st) ndocs output)\<rparr>
      else st)"

definition reject_all :: "error \<Rightarrow> run \<Rightarrow> run" where
  "reject_all e st = (if outcome st = Pending then st\<lparr>outcome := Failed e\<rparr> else st)"

text \<open>
  One event. The completion of document \<open>i\<close> resumes \<open>generateQuestions\<close> with the
  answer of the client; on success the task pushes the questions onto \<open>questions\<close> and
  starts \<open>fs.writeFile\<close> with the text of the whole array; the write overlaps the
  writes that are in flight at that moment. When a write settles with success, the file
  holds its text if no writes have overlapped, and is not determined otherwise. An event
  for a task that does not wait for it cannot happen (\<open>None\<close>).
\<close>

definition execute_step ::
  "Document list \<Rightarrow> int \<Rightarrow> jsstring \<Rightarrow> event \<Rightarrow> run \<Rightarrow> run option" where
  "execute_step documents questionsPerDocument output ev st =
     (case ev of
        Completion i answer \<Rightarrow>
          if i < length documents \<and> i < length (tasks st) \<and> tasks st ! i = Calling then
            (case generateQuestions (documents ! i) (\<lambda>prompt. answer) questionsPerDocument of
               Inl e \<Rightarrow> Some (reject_all e (st\<lparr>tasks := (tasks st)[i := Rejected e]\<rparr>))
             | Inr generatedQuestions \<Rightarrow>
                 let qs = questions st @ [generatedQuestions] in
                 Some (st\<lparr>tasks := (tasks st)[i := Writing qs], questions := qs,
                         overlapped := overlapped st \<or> in_flight (tasks st)\<rparr>))
          else None
      | Written i \<Rightarrow>
          if i < length (tasks st) then
            (case tasks st ! i of
               Writing snapshot \<Rightarrow>
                 Some (resolve_all (length documents) output
                         (st\<lparr>tasks := (tasks st)[i := Fulfilled],
                            output_file := (if overlapped st then Indeterminate else Holds snapshot),
                            overlapped := overlapped st \<and> in_flight ((tasks st)[i := Fulfilled])\<rparr>))
             | _ \<Rightarrow> None)
          else None
      | WriteFailed i e \<Rightarrow>
          if i < length (tasks st) then
            (case tasks st ! i of
               Writing snapshot \<Rightarrow>
                 Some (reject_all e
                         (st\<lparr>tasks := (tasks st)[i := Rejected e],
                            output_file := Indeterminate,
                            overlapped := overlapped st \<and> in_flight ((tasks st)[i := Rejected e])\<rparr>))
             | _ \<Rightarrow> None)
          else None)"

text \<open>The state when every task has issued its call; without documents nothing is awaited.\<close>

definition execute_init :: "Document list \<Rightarrow> jsstring \<Rightarrow> run" where
  "execute_init documents output =
     resolve_all (length documents) output
       \<lparr>tasks = replicate (length documents) Calling, questions = [], output_file = Unwritten,
        overlapped = False, outcome = Pending, summary = None\<rparr>"

fun run_events :: "Document list \<Rightarrow> int \<Rightarrow> jsstring \<Rightarrow> event list \<Rightarrow> run \<Rightarrow> run option" where
  "run_events documents n output [] st = Some st"
| "run_events documents n output (ev # evs) st =
     (case execute_step documents n output ev st of
        None \<Rightarrow> None
      | Some st' \<Rightarrow> run_events documents n output evs st')"

definition execute :: "Document list \<Rightarrow> int \<Rightarrow> jsstring \<Rightarrow> event list \<Rightarrow> run option" where
  "execute documents questionsPerDocument output evs =
     run_events documents questionsPerDocument output evs (execute_init documents output)"






section \<open>Example inputs\<close>

text \<open>A directory of two text files, with modification times in whole milliseconds.\<close>

definition ex_file_a :: "int dirfile" where
  "ex_file_a = \<lparr>fname = js ''/data/a.txt'', fstat = Inr 1700000000000, fcontent = []\<rparr>"

definition ex_file_b :: "int dirfile" where
  "ex_file_b = \<lparr>fname = js ''/data/b.txt'', fstat = Inr 1700000000001, fcontent = []\<rparr>"

definition ex_dir :: "int dirfile list" where
  "ex_dir = [ex_file_a, ex_file_b]"

text \<open>An empty temporary directory in which every file can be written.\<close>

definition ex_world :: world where
  "ex_world = \<lparr>tmp = Map.empty, writable = (\<lambda>name. True), calls = []\<rparr>"

text \<open>
  A document whose metadata holds strings only, and a document of a PDF file without
  document information, as the PDF loader builds it (\<open>info: undefined\<close>).
\<close>

definition ex_text_doc :: Document where
  "ex_text_doc = \<lparr>pageContent = js ''Chapter 1'', metadata = [(js ''source'', JStr (js ''a.txt''))]\<rparr>"

definition ex_pdf_doc :: Document where
  "ex_pdf_doc =
     \<lparr>pageContent = js ''Chapter 1'',
      metadata = [(js ''source'', JStr (js ''a.pdf'')), (js ''info'', JUndefined)]\<rparr>"

text \<open>Two and three documents for the batch runner.\<close>

definition ex_doc :: "string \<Rightarrow> Document" where
  "ex_doc s = \<lparr>pageContent = js s, metadata = []\<rparr>"

text \<open>
  The fingerprint of \<open>ex_dir\<close>, and a temporary directory whose entry for it is a
  truncated text (an opening brace).
\<close>

definition ex_fingerprint :: jsstring where
  "ex_fingerprint = hash (js ''/data/a.txt:1700000000000,/data/b.txt:1700000000001'')"

definition ex_world_corrupt :: world where
  "ex_world_corrupt =
     \<lparr>tmp = [tmp_name ex_fingerprint \<mapsto> Unparsable [0x7B]], writable = (\<lambda>name. True), calls = []\<rparr>"

text \<open>
  Runs of the batch runner. In the first the completion of the second document arrives
  before the completion of the first, and no two writes overlap; in the second the
  completion call of the middle document of three fails. In the third both completions
  arrive before a write has landed, so the two writes overlap.
\<close>

definition ex_output :: jsstring where
  "ex_output = js ''questions.json''"

definition ex_docs2 :: "Document list" where
  "ex_docs2 = [ex_doc ''Text A'', ex_doc ''Text B'']"






definition ex_events_overlap :: "event list" where
  "ex_events_overlap = [Completion 0 (Inr (js ''1. A?'')), Completion 1 (Inr (js ''1. B?'')),
                        Written 1, Written 0]"

text \<open>A temporary directory without entries in which no file can be written.\<close>

definition ex_world_readonly :: world where
  "ex_world_readonly = \<lparr>tmp = Map.empty, writable = (\<lambda>name. False), calls = []\<rparr>"

section \<open>Properties of the string operations\<close>

lemma split_nl_nonempty: "split_nl s \<noteq> []"
  by (induction s) (auto split: list.splits)

lemma split_nl_no_nl: "seg \<in> set (split_nl s) \<Longrightarrow> nl \<notin> set seg"
proof (induction s arbitrary: seg)
  case Nil
  then show ?case by simp
next
  case (Cons c cs)
  then show ?case
    by (cases "split_nl cs") (auto simp: split_nl_nonempty split: if_splits)
qed

lemma set_trim: "set (trim s) \<subseteq> set s"
  unfolding trim_def by (auto dest!: set_dropWhileD)

lemma collapse_no_nl: "nl \<notin> set s \<Longrightarrow> collapse s = s"
  by (induction s) auto

lemma set_strip_enum: "set (strip_enum s) \<subseteq> set s"
proof -
  have "set (dropWhile is_ws r') \<subseteq> set s" if "dropWhile is_digit s = c # r'" for c r'
  proof -
    have "set (dropWhile is_ws r') \<subseteq> set r'" by (auto dest: set_dropWhileD)
    also have "\<dots> \<subseteq> set (dropWhile is_digit s)" using that by auto
    also have "\<dots> \<subseteq> set s" by (auto dest: set_dropWhileD)
    finally show ?thesis .
  qed
  then show ?thesis
    unfolding strip_enum_def Let_def by (auto split: list.splits)
qed

lemma strip_enum_no_digit: "\<not> leading_digit s \<Longrightarrow> strip_enum s = s"
  by (cases s) (auto simp: leading_digit_def strip_enum_def)

text \<open>
  The marker strip against the reading of the pattern \<open>/^\d+\.\s+/\<close>: digits, a dot, a
  run of white space that the rest does not continue.
\<close>

lemma strip_enum_match:
  assumes ds: "ds \<noteq> []" "list_all is_digit ds"
    and ws: "ws \<noteq> []" "list_all is_ws ws"
    and rest: "rest = [] \<or> \<not> is_ws (hd rest)"
  shows "strip_enum (ds @ 0x2E # ws @ rest) = rest"
proof -
  have nd: "\<not> is_digit 0x2E" by (simp add: is_digit_def)
  have t: "takeWhile is_digit (ds @ 0x2E # ws @ rest) = ds"
    using ds(2) nd by (simp add: list_all_iff takeWhile_append2)
  have d: "dropWhile is_digit (ds @ 0x2E # ws @ rest) = 0x2E # ws @ rest"
    using ds(2) nd by (simp add: list_all_iff dropWhile_append2)
  have h: "is_ws (hd (ws @ rest))" using ws by (cases ws) auto
  have r: "dropWhile is_ws (ws @ rest) = rest"
    using ws(2) rest by (cases rest) (auto simp: list_all_iff dropWhile_append2)
  show ?thesis
    unfolding strip_enum_def Let_def t d using ds(1) ws(1) h r by simp
qed

lemma collapse_Nil_iff: "collapse s = [] \<longleftrightarrow> s = []"
  by (cases s) auto

lemma hd_collapse: "s \<noteq> [] \<Longrightarrow> hd (collapse s) = hd s"
  by (cases s) auto

lemma squeezed_Cons:
  "squeezed (c # s) \<longleftrightarrow> (s = [] \<or> ((c \<noteq> nl \<or> hd s \<noteq> nl) \<and> squeezed s))"
  by (cases s) auto

lemma hd_dropWhile_nl:
  "dropWhile (\<lambda>x. x = nl) cs \<noteq> [] \<Longrightarrow> hd (dropWhile (\<lambda>x. x = nl) cs) \<noteq> nl"
  using hd_dropWhile[of "\<lambda>x. x = nl" cs] by simp

text \<open>After \<open>collapse\<close> no two line feeds are adjacent.\<close>

lemma squeezed_collapse: "squeezed (collapse s)"
proof (induction s rule: collapse.induct)
  case 1
  then show ?case by simp
next
  case (2 c cs)
  show ?case
  proof (cases "c = nl \<and> cs \<noteq> [] \<and> hd cs = nl")
    case True
    with 2 have IH: "squeezed (collapse (dropWhile (\<lambda>x. x = nl) cs))" by simp
    let ?D = "dropWhile (\<lambda>x. x = nl) cs"
    have "collapse ?D = [] \<or> hd (collapse ?D) \<noteq> nl"
    proof (cases "?D = []")
      case True
      then have "collapse ?D = []" by (simp only: collapse.simps)
      then show ?thesis ..
    next
      case False
      then have "hd (collapse ?D) = hd ?D" by (rule hd_collapse)
      moreover have "hd ?D \<noteq> nl" using False by (rule hd_dropWhile_nl)
      ultimately show ?thesis by simp
    qed
    moreover have "collapse (c # cs) = nl # collapse ?D" using True by simp
    ultimately show ?thesis using IH by (auto simp: squeezed_Cons)
  next
    case False
    with 2 have IH: "squeezed (collapse cs)" by simp
    from False IH show ?thesis
      by (auto simp: squeezed_Cons collapse_Nil_iff hd_collapse)
  qed
qed

text \<open>Where no two line feeds are adjacent, \<open>collapse\<close> changes nothing.\<close>

lemma collapse_squeezed: "squeezed s \<Longrightarrow> collapse s = s"
  by (induction s rule: squeezed.induct) auto

lemma squeezed_append: "squeezed (a @ b) \<Longrightarrow> squeezed a \<and> squeezed b"
  by (induction a rule: squeezed.induct) (auto simp: squeezed_Cons)

text \<open>\<open>trim\<close> returns a contiguous part of its argument.\<close>

lemma trim_decomp: "\<exists>pre suf. s = pre @ trim s @ suf"
proof -
  let ?t = "dropWhile is_ws s"
  have "s = takeWhile is_ws s @ ?t" by simp
  moreover have "?t = trim s @ rev (takeWhile is_ws (rev ?t))"
    unfolding trim_def
    by (metis rev_append rev_rev_ident takeWhile_dropWhile_id)
  ultimately show ?thesis by metis
qed

lemma squeezed_trim: "squeezed s \<Longrightarrow> squeezed (trim s)"
  using trim_decomp[of s] squeezed_append by metis

lemma trim_idem: "trim (trim s) = trim s"
proof -
  let ?t = "dropWhile is_ws s"
  let ?u = "trim s"
  have tu: "?t = ?u @ rev (takeWhile is_ws (rev ?t))"
    unfolding trim_def by (metis rev_append rev_rev_ident takeWhile_dropWhile_id)
  show ?thesis
  proof (cases "?u = []")
    case True
    have "trim [] = []" by (simp add: trim_def)
    with True show ?thesis by simp
  next
    case False
    then have "hd ?u = hd ?t" using tu by (metis hd_append2)
    moreover have "?t \<noteq> []" using False tu by (metis append_is_Nil_conv)
    ultimately have "\<not> is_ws (hd ?u)" using hd_dropWhile[of is_ws s] by metis
    then have "dropWhile is_ws ?u = ?u" using False by (cases ?u) auto
    then show ?thesis by (simp add: trim_def)
  qed
qed

lemma preprocess_idem: "preprocess (preprocess x) = preprocess x"
  unfolding preprocess_def
  by (simp add: collapse_squeezed squeezed_trim squeezed_collapse trim_idem)

lemma parse_segment_eq:
  "seg \<in> set (split_nl raw) \<Longrightarrow> strip_enum (collapse (trim seg)) = strip_enum (trim seg)"
proof -
  assume "seg \<in> set (split_nl raw)"
  then have "nl \<notin> set seg" by (rule split_nl_no_nl)
  then have "nl \<notin> set (trim seg)" using set_trim[of seg] by auto
  then show ?thesis by (simp add: collapse_no_nl)
qed

lemma parseQuestions_spec: "parseQuestions raw = parser_spec raw"
proof -
  have eq: "map (\<lambda>question. strip_enum (collapse (trim question))) (split_nl raw)
      = map (\<lambda>seg. strip_enum (trim seg)) (split_nl raw)"
    by (rule map_cong[OF refl]) (rule parse_segment_eq)
  show ?thesis unfolding parseQuestions_def parser_spec_def eq by simp
qed

section \<open>The claims about the question parser and the preprocessor\<close>

text \<open>
  C4. For every raw completion string the question parser splits at line feeds, trims
  every segment, strips a leading marker of digits, a dot and white space, and discards the
  segments that end up empty (it agrees with \<open>parser_spec\<close>, the parser in the
  specification's words). The raw text of the two numbered questions gives the two
  questions, two line feeds alone give no question, and where no trimmed segment starts
  with a digit the segments pass through trimmed.
\<close>

theorem parseQuestions_correct:
  "parseQuestions raw = parser_spec raw
   \<and> parseQuestions (js ''1. What is X?'' @ [nl, nl] @ js ''2. Why Y?'' @ [nl])
       = [js ''What is X?'', js ''Why Y?'']
   \<and> parseQuestions [nl, nl] = []
   \<and> ((\<forall>seg \<in> set (split_nl raw). \<not> leading_digit (trim seg))
        \<longrightarrow> parseQuestions raw = filter (\<lambda>q. q \<noteq> []) (map trim (split_nl raw)))"
proof (intro conjI impI)
  show "parseQuestions raw = parser_spec raw" by (rule parseQuestions_spec)
  show "parseQuestions (js ''1. What is X?'' @ [nl, nl] @ js ''2. Why Y?'' @ [nl])
      = [js ''What is X?'', js ''Why Y?'']"
    by code_simp
  show "parseQuestions [nl, nl] = []" by code_simp
next
  assume h: "\<forall>seg \<in> set (split_nl raw). \<not> leading_digit (trim seg)"
  have eq: "map (\<lambda>seg. strip_enum (trim seg)) (split_nl raw) = map trim (split_nl raw)"
    by (rule map_cong[OF refl]) (simp add: h strip_enum_no_digit)
  show "parseQuestions raw = filter (\<lambda>q. q \<noteq> []) (map trim (split_nl raw))"
    unfolding parseQuestions_spec parser_spec_def eq by (rule refl)
qed

theorem parseQuestions_correct_witness:
  "list_all (\<lambda>seg. \<not> leading_digit (trim seg)) (split_nl (js ''  Why?  '' @ [nl] @ js ''How? ''))
   \<and> parseQuestions (js ''  Why?  '' @ [nl] @ js ''How? '') = [js ''Why?'', js ''How?'']"
proof -
  have h: "list_all (\<lambda>seg. \<not> leading_digit (trim seg))
             (split_nl (js ''  Why?  '' @ [nl] @ js ''How? ''))"
    by code_simp
  have e: "filter (\<lambda>q. q \<noteq> []) (map trim (split_nl (js ''  Why?  '' @ [nl] @ js ''How? '')))
      = [js ''Why?'', js ''How?'']"
    by code_simp
  from parseQuestions_correct[of "js ''  Why?  '' @ [nl] @ js ''How? ''"] h
  have "parseQuestions (js ''  Why?  '' @ [nl] @ js ''How? '')
      = filter (\<lambda>q. q \<noteq> []) (map trim (split_nl (js ''  Why?  '' @ [nl] @ js ''How? '')))"
    unfolding list_all_iff by blast
  with h e show ?thesis by simp
qed

text \<open>
  C5. Preprocessing is idempotent, on a string (\<open>preprocess\<close>) and on a list of documents
  (\<open>preProcessDocuments\<close>): a second application changes nothing.
\<close>

theorem preprocess_idempotent:
  "preprocess (preprocess x) = preprocess x
   \<and> preProcessDocuments (preProcessDocuments docs) = preProcessDocuments docs"
  by (simp add: preProcessDocuments_def preprocess_idem)

text \<open>
  C10. No question in the parser's output contains a line feed.
\<close>

theorem parseQuestions_no_newline:
  "q \<in> set (parseQuestions raw) \<Longrightarrow> nl \<notin> set q"
proof -
  assume "q \<in> set (parseQuestions raw)"
  then obtain seg where seg: "seg \<in> set (split_nl raw)" and q: "q = strip_enum (collapse (trim seg))"
    by (auto simp: parseQuestions_def)
  from seg have "nl \<notin> set seg" by (rule split_nl_no_nl)
  then have "nl \<notin> set (trim seg)" using set_trim[of seg] by auto
  then have "nl \<notin> set (collapse (trim seg))" by (simp add: collapse_no_nl)
  then show "nl \<notin> set q" using set_strip_enum[of "collapse (trim seg)"] q by auto
qed

theorem parseQuestions_no_newline_witness:
  "js ''Why?'' \<in> set (parseQuestions (js ''1. Why?'' @ [nl, nl] @ js ''2. How?''))
   \<and> nl \<notin> set (js ''Why?'')"
proof -
  have h: "js ''Why?'' \<in> set (parseQuestions (js ''1. Why?'' @ [nl, nl] @ js ''2. How?''))"
    by code_simp
  from parseQuestions_no_newline[OF h] h show ?thesis by simp
qed


section \<open>The prompt\<close>

lemma first_replace_Hi:
  "String_replace PROMPT_TEMPLATE (js ''{document}'') (js ''Hi'')
     = js ''Expert Question Generator, style of Gladwell & Pink. Analyze: '' @ [dquote]
       @ js ''Hi'' @ [dquote]
       @ js '', generate {numQuestions} diverse, comprehensive questions, adjustable complexity, for students to professionals. Skip with a single ''
       @ [nl] @ js ''. No answers.''"
  by code_simp

lemma no_questions_placeholder:
  "find_first (js ''{questions}'')
     (js ''Expert Question Generator, style of Gladwell & Pink. Analyze: '' @ [dquote]
       @ js ''Hi'' @ [dquote]
       @ js '', generate {numQuestions} diverse, comprehensive questions, adjustable complexity, for students to professionals. Skip with a single ''
       @ [nl] @ js ''. No answers.'') = None"
  by code_simp

text \<open>\<open>find_first\<close> splits the string at an occurrence of the pattern, if there is one.\<close>

lemma starts_with_iff: "starts_with p s \<longleftrightarrow> take (length p) s = p"
  by (induction p s rule: starts_with.induct) auto

lemma find_first_Some: "find_first pat s = Some (u, v) \<Longrightarrow> s = u @ pat @ v"
proof (induction s arbitrary: u v)
  case Nil
  then show ?case by (auto split: if_splits)
next
  case (Cons c cs)
  show ?case
  proof (cases "starts_with pat (c # cs)")
    case True
    with Cons.prems have "u = []" "v = drop (length pat) (c # cs)" by auto
    moreover from True have "take (length pat) (c # cs) = pat" by (simp add: starts_with_iff)
    ultimately show ?thesis by (metis append_Nil append_take_drop_id)
  next
    case False
    with Cons.prems obtain u' where "find_first pat cs = Some (u', v)" "u = c # u'"
      by (auto split: option.splits)
    with Cons.IH show ?thesis by auto
  qed
qed

lemma find_first_None: "find_first pat s = None \<Longrightarrow> s \<noteq> u @ pat @ v"
proof (induction s arbitrary: u)
  case Nil
  then show ?case by (auto split: if_splits)
next
  case (Cons c cs)
  from Cons.prems have ns: "\<not> starts_with pat (c # cs)" and n: "find_first pat cs = None"
    by (auto split: if_splits option.splits)
  show ?case
  proof (cases u)
    case Nil
    from ns have "take (length pat) (c # cs) \<noteq> pat" by (simp add: starts_with_iff)
    then show ?thesis using Nil by auto
  next
    case (Cons a u')
    from Cons.IH[OF n, of u'] show ?thesis using Cons by auto
  qed
qed

lemma get_substitution_plain:
  "0x24 \<notin> set r \<Longrightarrow> get_substitution m u v r = r"
  by (induction m u v r rule: get_substitution.induct) auto

lemma template_split:
  "find_first (js ''{document}'') PROMPT_TEMPLATE
     = Some (js ''Expert Question Generator, style of Gladwell & Pink. Analyze: '' @ [dquote],
             [dquote] @ js '', generate {numQuestions} diverse, comprehensive questions, adjustable complexity, for students to professionals. Skip with a single ''
             @ [nl] @ js ''. No answers.'')"
  by code_simp

text \<open>
  The first \<open>replace\<close> puts the content in the place of \<open>{document}\<close> when the content
  has no dollar sign; the second changes nothing unless the text so far contains
  \<open>{questions}\<close>, so the prompt then does not depend on the question target.
\<close>

lemma first_replace_plain:
  "0x24 \<notin> set content \<Longrightarrow>
   String_replace PROMPT_TEMPLATE (js ''{document}'') content
     = js ''Expert Question Generator, style of Gladwell & Pink. Analyze: '' @ [dquote]
       @ content @ [dquote]
       @ js '', generate {numQuestions} diverse, comprehensive questions, adjustable complexity, for students to professionals. Skip with a single ''
       @ [nl] @ js ''. No answers.''"
  by (simp add: String_replace_def template_split get_substitution_plain)

lemma build_prompt_independent:
  "find_first (js ''{questions}'')
     (String_replace PROMPT_TEMPLATE (js ''{document}'') (pageContent d)) = None
   \<Longrightarrow> build_prompt d n = String_replace PROMPT_TEMPLATE (js ''{document}'') (pageContent d)"
  unfolding build_prompt_def by (subst String_replace_def) simp

text \<open>
  C1. For the document with content \<open>Hi\<close> and any question target \<open>n\<close>, the prompt of
  \<open>generateQuestions\<close> still holds the placeholder \<open>{numQuestions}\<close> and nowhere the
  target: the code replaces \<open>{questions}\<close>, which the template does not contain. The
  prompt differs from the template with both placeholders filled in.
\<close>

theorem build_prompt_target_missing:
  "build_prompt \<lparr>pageContent = js ''Hi'', metadata = []\<rparr> n
     = js ''Expert Question Generator, style of Gladwell & Pink. Analyze: '' @ [dquote]
       @ js ''Hi'' @ [dquote]
       @ js '', generate {numQuestions} diverse, comprehensive questions, adjustable complexity, for students to professionals. Skip with a single ''
       @ [nl] @ js ''. No answers.''
   \<and> build_prompt \<lparr>pageContent = js ''Hi'', metadata = []\<rparr> 3 \<noteq> prompt_spec (js ''Hi'') 3"
proof
  show "build_prompt \<lparr>pageContent = js ''Hi'', metadata = []\<rparr> n
     = js ''Expert Question Generator, style of Gladwell & Pink. Analyze: '' @ [dquote]
       @ js ''Hi'' @ [dquote]
       @ js '', generate {numQuestions} diverse, comprehensive questions, adjustable complexity, for students to professionals. Skip with a single ''
       @ [nl] @ js ''. No answers.''"
    unfolding build_prompt_def Document.simps first_replace_Hi
    by (subst String_replace_def) (simp only: no_questions_placeholder option.case)
  show "build_prompt \<lparr>pageContent = js ''Hi'', metadata = []\<rparr> 3 \<noteq> prompt_spec (js ''Hi'') 3"
    by code_simp
qed

text \<open>
  The replacement string of the first \<open>replace\<close> is the content of the document, so a
  \<open>$&\<close> in the content is expanded to the placeholder itself.
\<close>

lemma build_prompt_dollar:
  "build_prompt \<lparr>pageContent = js ''a$&b'', metadata = []\<rparr> 3
     = js ''Expert Question Generator, style of Gladwell & Pink. Analyze: '' @ [dquote]
       @ js ''a{document}b'' @ [dquote]
       @ js '', generate {numQuestions} diverse, comprehensive questions, adjustable complexity, for students to professionals. Skip with a single ''
       @ [nl] @ js ''. No answers.''"
  by code_simp

section \<open>The fingerprint\<close>

text \<open>
  The MD5 model against three test vectors of RFC 1321; the last one takes two blocks.
\<close>

lemma hash_empty: "hash [] = js ''d41d8cd98f00b204e9800998ecf8427e''"
  by code_simp

lemma hash_abc: "hash (js ''abc'') = js ''900150983cd24fb0d6963f7d28e17f72''"
  by code_simp

lemma hash_two_blocks:
  "hash (js ''12345678901234567890123456789012345678901234567890123456789012345678901234567890'')
     = js ''57edf4a22be3c955ac49da2e2107b67a''"
  by code_simp

lemma promise_all_append:
  "promise_all (a @ b) =
     (case promise_all a of
        Inl e \<Rightarrow> Inl e
      | Inr va \<Rightarrow> (case promise_all b of Inl e \<Rightarrow> Inl e | Inr vb \<Rightarrow> Inr (va @ vb)))"
  by (induction a rule: promise_all.induct) (auto split: sum.splits)

lemma join_middle:
  "join sep (P @ x # Q) = concat (map (\<lambda>p. p @ sep) P) @ x @ concat (map (\<lambda>q. sep @ q) Q)"
proof (induction P)
  case Nil
  show ?case by (induction Q arbitrary: x) auto
next
  case (Cons p P)
  then show ?case by (cases "P @ x # Q") auto
qed

lemma getDirectoryHash_cong:
  assumes "map (\<lambda>f. (fname f, fstat f)) A = map (\<lambda>f. (fname f, fstat f)) B"
  shows "getDirectoryHash num_str A = getDirectoryHash num_str B"
proof -
  let ?g = "\<lambda>p. case snd p of Inl e \<Rightarrow> Inl e | Inr m \<Rightarrow> Inr (fst p @ js '':'' @ num_str m)"
  have g: "fileInfo num_str = ?g \<circ> (\<lambda>f. (fname f, fstat f))"
    by (rule ext) (simp add: fileInfo_def split: sum.splits)
  have "map (fileInfo num_str) A = map ?g (map (\<lambda>f. (fname f, fstat f)) A)"
    unfolding g by (rule map_map[symmetric])
  also have "\<dots> = map ?g (map (\<lambda>f. (fname f, fstat f)) B)"
    by (simp only: assms)
  also have "\<dots> = map (fileInfo num_str) B"
    unfolding g by (rule map_map)
  finally show ?thesis by (simp add: getDirectoryHash_def fingerprint_input_def)
qed

lemma fingerprint_input_mtime:
  assumes ok: "fingerprint_input num_str (pre @ f # post) = Inr s"
    and old: "fstat f = Inr m"
    and diff: "num_str m' \<noteq> num_str m"
  shows "\<exists>s'. fingerprint_input num_str (pre @ f\<lparr>fstat := Inr m'\<rparr> # post) = Inr s' \<and> s' \<noteq> s"
proof -
  from ok obtain P Q where P: "promise_all (map (fileInfo num_str) pre) = Inr P"
    and Q: "promise_all (map (fileInfo num_str) post) = Inr Q"
    by (auto simp: fingerprint_input_def promise_all_append fileInfo_def old split: sum.splits)
  have s: "s = join (js '','') (P @ (fname f @ js '':'' @ num_str m) # Q)"
    using ok P Q by (simp add: fingerprint_input_def promise_all_append fileInfo_def old)
  have s': "fingerprint_input num_str (pre @ f\<lparr>fstat := Inr m'\<rparr> # post)
      = Inr (join (js '','') (P @ (fname f @ js '':'' @ num_str m') # Q))"
    using P Q by (simp add: fingerprint_input_def promise_all_append fileInfo_def)
  have "join (js '','') (P @ (fname f @ js '':'' @ num_str m') # Q) \<noteq> s"
    unfolding s join_middle using diff by simp
  with s' show ?thesis by blast
qed

lemma ex_dir_input:
  "fingerprint_input Number_toString ex_dir
     = Inr (js ''/data/a.txt:1700000000000,/data/b.txt:1700000000001'')"
  by (simp add: fingerprint_input_def fileInfo_def ex_dir_def ex_file_a_def ex_file_b_def Number_toString_def js_def)

lemma ex_dir_rev_input:
  "fingerprint_input Number_toString (rev ex_dir)
     = Inr (js ''/data/b.txt:1700000000001,/data/a.txt:1700000000000'')"
  by (simp add: fingerprint_input_def fileInfo_def ex_dir_def ex_file_a_def ex_file_b_def Number_toString_def js_def)

lemma ex_dir_hash:
  "getDirectoryHash Number_toString ex_dir
     = Inr (hash (js ''/data/a.txt:1700000000000,/data/b.txt:1700000000001''))"
  by (simp add: getDirectoryHash_def ex_dir_input)

lemma hash_ex_dir:
  "hash (js ''/data/a.txt:1700000000000,/data/b.txt:1700000000001'')
     = js ''c985833cfaadd6128f087209783abfea''"
  by code_simp

lemma hash_ex_dir_rev:
  "hash (js ''/data/b.txt:1700000000001,/data/a.txt:1700000000000'')
     = js ''21915b4ca65cd7df5a3baf2e3a8c609e''"
  by code_simp

text \<open>
  C8 as stated fails: the two enumerations of the same two files have the same set of
  pairs of path and modification time and different fingerprints.
\<close>

theorem getDirectoryHash_order_counterexample:
  "path_mtime_set ex_dir = path_mtime_set (rev ex_dir)
   \<and> getDirectoryHash Number_toString ex_dir = Inr (js ''c985833cfaadd6128f087209783abfea'')
   \<and> getDirectoryHash Number_toString (rev ex_dir) = Inr (js ''21915b4ca65cd7df5a3baf2e3a8c609e'')
   \<and> getDirectoryHash Number_toString ex_dir \<noteq> getDirectoryHash Number_toString (rev ex_dir)"
proof -
  have 1: "path_mtime_set ex_dir = path_mtime_set (rev ex_dir)"
    by (simp add: path_mtime_set_def)
  have 2: "getDirectoryHash Number_toString ex_dir = Inr (js ''c985833cfaadd6128f087209783abfea'')"
    by (simp add: getDirectoryHash_def ex_dir_input hash_ex_dir)
  have 3: "getDirectoryHash Number_toString (rev ex_dir) = Inr (js ''21915b4ca65cd7df5a3baf2e3a8c609e'')"
    by (simp add: getDirectoryHash_def ex_dir_rev_input hash_ex_dir_rev)
  have 4: "js ''c985833cfaadd6128f087209783abfea'' \<noteq> js ''21915b4ca65cd7df5a3baf2e3a8c609e''"
    by (simp add: js_def)
  from 1 2 3 4 show ?thesis by simp
qed

text \<open>
  C8, amended. The fingerprint is a function of the sequence of the pairs of path and
  modification time in the order of the enumeration: two directories with the same
  sequence have the same fingerprint, whatever the files contain. A change of one file's
  modification time to a number with another rendering changes the string that is hashed
  (the fingerprint is its MD5 digest).
\<close>

theorem getDirectoryHash_sequence:
  "(map (\<lambda>f. (fname f, fstat f)) A = map (\<lambda>f. (fname f, fstat f)) B
      \<longrightarrow> getDirectoryHash num_str A = getDirectoryHash num_str B)
   \<and> getDirectoryHash num_str (map (\<lambda>f. f\<lparr>fcontent := c f\<rparr>) A) = getDirectoryHash num_str A
   \<and> (fingerprint_input num_str (pre @ f # post) = Inr s \<and> fstat f = Inr m
        \<and> num_str m' \<noteq> num_str m
      \<longrightarrow> (\<exists>s'. fingerprint_input num_str (pre @ f\<lparr>fstat := Inr m'\<rparr> # post) = Inr s'
                \<and> s' \<noteq> s))"
proof (intro conjI impI)
  assume "map (\<lambda>f. (fname f, fstat f)) A = map (\<lambda>f. (fname f, fstat f)) B"
  then show "getDirectoryHash num_str A = getDirectoryHash num_str B"
    by (rule getDirectoryHash_cong)
next
  have "map (\<lambda>f. (fname f, fstat f)) (map (\<lambda>f. f\<lparr>fcontent := c f\<rparr>) A)
      = map (\<lambda>f. (fname f, fstat f)) A"
    by (induction A) simp_all
  then show "getDirectoryHash num_str (map (\<lambda>f. f\<lparr>fcontent := c f\<rparr>) A) = getDirectoryHash num_str A"
    by (rule getDirectoryHash_cong)
next
  assume h: "fingerprint_input num_str (pre @ f # post) = Inr s \<and> fstat f = Inr m
        \<and> num_str m' \<noteq> num_str m"
  from h have a: "fingerprint_input num_str (pre @ f # post) = Inr s" by (rule conjunct1)
  from h have b: "fstat f = Inr m" by (rule conjunct1[OF conjunct2])
  from h have c: "num_str m' \<noteq> num_str m" by (rule conjunct2[OF conjunct2])
  show "\<exists>s'. fingerprint_input num_str (pre @ f\<lparr>fstat := Inr m'\<rparr> # post) = Inr s' \<and> s' \<noteq> s"
    by (rule fingerprint_input_mtime[OF a b c])
qed

theorem getDirectoryHash_sequence_witness:
  "fingerprint_input Number_toString ([] @ ex_file_a # [ex_file_b])
     = Inr (js ''/data/a.txt:1700000000000,/data/b.txt:1700000000001'')
   \<and> fstat ex_file_a = Inr 1700000000000
   \<and> Number_toString 1700000000005 \<noteq> Number_toString 1700000000000
   \<and> fingerprint_input Number_toString ([] @ ex_file_a\<lparr>fstat := Inr 1700000000005\<rparr> # [ex_file_b])
     \<noteq> Inr (js ''/data/a.txt:1700000000000,/data/b.txt:1700000000001'')
   \<and> map (\<lambda>f. (fname f, fstat f)) (map (\<lambda>f. f\<lparr>fcontent := [0x41]\<rparr>) ex_dir)
     = map (\<lambda>f. (fname f, fstat f)) ex_dir
   \<and> getDirectoryHash Number_toString (map (\<lambda>f. f\<lparr>fcontent := [0x41]\<rparr>) ex_dir)
     = getDirectoryHash Number_toString ex_dir"
proof -
  let ?s = "js ''/data/a.txt:1700000000000,/data/b.txt:1700000000001''"
  let ?B = "map (\<lambda>f. f\<lparr>fcontent := [0x41]\<rparr>) ex_dir"
  have a: "fingerprint_input Number_toString ([] @ ex_file_a # [ex_file_b]) = Inr ?s"
    using ex_dir_input by (simp add: ex_dir_def)
  have b: "fstat ex_file_a = Inr 1700000000000"
    by (simp add: ex_file_a_def)
  have c: "Number_toString 1700000000005 \<noteq> Number_toString 1700000000000"
    by (simp add: Number_toString_def)
  have d: "map (\<lambda>f. (fname f, fstat f)) ?B = map (\<lambda>f. (fname f, fstat f)) ex_dir"
    by (simp add: ex_dir_def)
  note inst = getDirectoryHash_sequence[where A = "?B" and B = ex_dir and num_str = Number_toString
      and pre = "[]" and f = ex_file_a and post = "[ex_file_b]" and s = "?s"
      and m = 1700000000000 and m' = 1700000000005]
  from inst have "map (\<lambda>f. (fname f, fstat f)) ?B = map (\<lambda>f. (fname f, fstat f)) ex_dir
      \<longrightarrow> getDirectoryHash Number_toString ?B = getDirectoryHash Number_toString ex_dir"
    by (rule conjunct1)
  with d have e: "getDirectoryHash Number_toString ?B = getDirectoryHash Number_toString ex_dir"
    by (rule rev_mp)
  from inst a b c
  have "\<exists>s'. fingerprint_input Number_toString ([] @ ex_file_a\<lparr>fstat := Inr 1700000000005\<rparr> # [ex_file_b]) = Inr s'
          \<and> s' \<noteq> ?s"
    by (simp only: simp_thms)
  then have f: "fingerprint_input Number_toString ([] @ ex_file_a\<lparr>fstat := Inr 1700000000005\<rparr> # [ex_file_b])
      \<noteq> Inr ?s"
    by auto
  from a b c f d e show ?thesis by (intro conjI)
qed


section \<open>The document cache\<close>

lemma json_array_fix:
  "(\<And>x. x \<in> set xs \<Longrightarrow> json_of x = Some x) \<Longrightarrow> map json_element (map json_of xs) = xs"
  by (induction xs) (auto simp: json_element_def)

lemma json_object_fix:
  "(\<And>k v. (k, v) \<in> set kvs \<Longrightarrow> json_of v = Some v)
     \<Longrightarrow> concat (map json_property (map (map_prod id json_of) kvs)) = kvs"
proof (induction kvs)
  case Nil
  show ?case by simp
next
  case (Cons kv kvs)
  obtain k v where kv: "kv = (k, v)" by (cases kv)
  have "json_of v = Some v" using Cons.prems[of k v] kv by simp
  then have "json_property (map_prod id json_of (k, v)) = [(k, v)]"
    by (simp add: json_property_def)
  moreover have "concat (map json_property (map (map_prod id json_of) kvs)) = kvs"
  proof (rule Cons.IH)
    fix k' v' assume "(k', v') \<in> set kvs"
    then have "(k', v') \<in> set (kv # kvs)" by simp
    then show "json_of v' = Some v'" by (rule Cons.prems)
  qed
  ultimately show ?case unfolding kv by (simp only: list.map concat.simps append.simps)
qed

text \<open>Serialisation keeps a clean value as it is.\<close>

lemma json_of_clean: "json_clean v \<Longrightarrow> json_of v = Some v"
proof (induction v)
  case (JArr xs)
  have "map json_element (map json_of xs) = xs"
  proof (rule json_array_fix)
    fix x assume x: "x \<in> set xs"
    with JArr.prems have "json_clean x" by (auto simp: list_all_iff)
    with x show "json_of x = Some x" by (rule JArr.IH)
  qed
  then show ?case by simp
next
  case (JObj kvs)
  have "concat (map json_property (map (map_prod id json_of) kvs)) = kvs"
  proof (rule json_object_fix)
    fix k v assume kv: "(k, v) \<in> set kvs"
    with JObj.prems have "json_clean v" by (auto simp: list_all_iff)
    moreover have "v \<in> Basic_BNFs.snds (k, v)" by simp
    ultimately show "json_of v = Some v" using JObj.IH[OF kv] by blast
  qed
  then show ?case by simp
qed (auto simp: json_number_def)

text \<open>Serialisation keeps exactly the clean values.\<close>

lemma json_of_not_None_elem: "json_element (json_of x) = x \<Longrightarrow> json_of x = Some x"
  by (cases "json_of x") (auto simp: json_element_def)

lemma json_object_length:
  "length (concat (map json_property (map (map_prod id json_of) kvs))) \<le> length kvs"
  by (induction kvs) (auto simp: json_property_def split: option.splits)

lemma json_object_fixed:
  "concat (map json_property (map (map_prod id json_of) kvs)) = kvs
     \<Longrightarrow> (k, v) \<in> set kvs \<Longrightarrow> json_of v = Some v"
proof (induction kvs)
  case Nil
  then show ?case by simp
next
  case (Cons kv kvs)
  obtain k0 v0 where kv: "kv = (k0, v0)" by (cases kv)
  let ?r = "concat (map json_property (map (map_prod id json_of) kvs))"
  have "map_prod id json_of (k0, v0) = (k0, json_of v0)" by simp
  with Cons.prems(1) have eq: "json_property (k0, json_of v0) @ ?r = (k0, v0) # kvs"
    unfolding kv by (simp only: list.map concat.simps)
  have "json_of v0 \<noteq> None"
  proof
    assume "json_of v0 = None"
    with eq have "?r = (k0, v0) # kvs" by (simp add: json_property_def)
    then have "length ?r = Suc (length kvs)" by simp
    with json_object_length[of kvs] show False by simp
  qed
  then obtain y where y: "json_of v0 = Some y" by auto
  with eq have "y = v0" and r: "?r = kvs" by (simp_all add: json_property_def)
  with y have v0: "json_of v0 = Some v0" by simp
  from Cons.prems(2) kv consider "(k, v) = (k0, v0)" | "(k, v) \<in> set kvs" by auto
  then show ?case
  proof cases
    case 1
    with v0 show ?thesis by simp
  next
    case 2
    with r show ?thesis by (rule Cons.IH)
  qed
qed

lemma json_clean_of: "json_of v = Some v \<Longrightarrow> json_clean v"
proof (induction v)
  case (JNum w)
  then show ?case
    by (auto simp: json_number_def minus_zero_def split: if_splits)
next
  case (JArr xs)
  from JArr.prems have m: "map json_element (map json_of xs) = xs" by simp
  have "json_clean x" if x: "x \<in> set xs" for x
  proof -
    from m have "map (\<lambda>x. json_element (json_of x)) xs = map (\<lambda>x. x) xs" by (simp add: comp_def)
    with x have "json_element (json_of x) = x" by (simp only: map_eq_conv)
    then have "json_of x = Some x" by (rule json_of_not_None_elem)
    with x show ?thesis by (rule JArr.IH)
  qed
  then show ?case by (simp add: list_all_iff)
next
  case (JObj kvs)
  from JObj.prems have m: "concat (map json_property (map (map_prod id json_of) kvs)) = kvs"
    by simp
  have "json_clean v" if kv: "(k, v) \<in> set kvs" for k v
  proof -
    from m kv have "json_of v = Some v" by (rule json_object_fixed)
    moreover have "v \<in> Basic_BNFs.snds (k, v)" by simp
    ultimately show ?thesis using JObj.IH[OF kv] by blast
  qed
  then show ?case by (auto simp: list_all_iff)
qed simp_all

lemma json_of_fixed_iff: "json_of v = Some v \<longleftrightarrow> json_clean v"
  using json_of_clean json_clean_of by blast

lemma json_of_documents:
  assumes "list_all (\<lambda>d. json_clean (JObj (metadata d))) docs"
  shows "json_of (documents_value docs) = Some (documents_value docs)"
proof -
  have "json_clean (documents_value docs)"
    using assms by (induction docs) (auto simp: documents_value_def document_value_def)
  then show ?thesis by (rule json_of_clean)
qed

lemma clean_preProcessDocuments:
  "list_all (\<lambda>d. json_clean (JObj (metadata d))) docs
     \<Longrightarrow> list_all (\<lambda>d. json_clean (JObj (metadata d))) (preProcessDocuments docs)"
  by (simp add: preProcessDocuments_def list_all_iff)

lemma cache_get_miss:
  assumes "tmp w (tmp_name h) = None \<or> (\<exists>bs. tmp w (tmp_name h) = Some (Unparsable bs))"
  shows "cache_get h w = (None, w\<lparr>calls := calls w @ [ReadTMP h]\<rparr>)"
  using assms by (auto simp: cache_get_def readTMP_def JSON_parse_def)

lemma load_miss:
  assumes fp: "getDirectoryHash num_str files = Inr h"
    and miss: "tmp w (tmp_name h) = None \<or> (\<exists>bs. tmp w (tmp_name h) = Some (Unparsable bs))"
  shows "fst (loadDocuments loader num_str files True w) =
     (case loader files of
        Inl e \<Rightarrow> Inl e
      | Inr docs \<Rightarrow>
          if writable w (tmp_name h) then Inr (documents_value (preProcessDocuments docs))
          else Inl IOError)"
proof -
  let ?w1 = "w\<lparr>calls := calls w @ getDirectoryHash_calls files\<rparr>"
  have "tmp ?w1 (tmp_name h) = None \<or> (\<exists>bs. tmp ?w1 (tmp_name h) = Some (Unparsable bs))"
    using miss by simp
  then have g: "cache_get h ?w1 = (None, ?w1\<lparr>calls := calls ?w1 @ [ReadTMP h]\<rparr>)"
    by (rule cache_get_miss)
  show ?thesis
    unfolding loadDocuments_def Let_def
    by (simp add: fp g cache_put_def JSON_stringify_def documents_value_def cacheTMP_def split: sum.splits)
qed

lemma load_miss_ok:
  assumes fp: "getDirectoryHash num_str files = Inr h"
    and miss: "tmp w (tmp_name h) = None \<or> (\<exists>bs. tmp w (tmp_name h) = Some (Unparsable bs))"
    and ld: "loader files = Inr docs"
    and wr: "writable w (tmp_name h)"
  shows "\<exists>data. JSON_stringify (documents_value (preProcessDocuments docs)) = Some data \<and>
     loadDocuments loader num_str files True w =
       (Inr (documents_value (preProcessDocuments docs)),
        w\<lparr>tmp := (tmp w)(tmp_name h \<mapsto> data),
          calls := calls w @ getDirectoryHash_calls files @ [ReadTMP h, Load, WriteTMP h]\<rparr>)"
proof -
  let ?w1 = "w\<lparr>calls := calls w @ getDirectoryHash_calls files\<rparr>"
  have "tmp ?w1 (tmp_name h) = None \<or> (\<exists>bs. tmp ?w1 (tmp_name h) = Some (Unparsable bs))"
    using miss by simp
  then have g: "cache_get h ?w1 = (None, ?w1\<lparr>calls := calls ?w1 @ [ReadTMP h]\<rparr>)"
    by (rule cache_get_miss)
  show ?thesis
    unfolding loadDocuments_def Let_def
    by (simp add: fp g ld wr cache_put_def JSON_stringify_def documents_value_def cacheTMP_def)
qed

text \<open>A hit returns what the entry parses to, without a call of the loader.\<close>

lemma load_hit:
  assumes fp: "getDirectoryHash num_str files = Inr h"
    and hit: "tmp w (tmp_name h) = Some (JSONText v)"
  shows "loadDocuments loader num_str files True w =
       (Inr v, w\<lparr>calls := calls w @ getDirectoryHash_calls files @ [ReadTMP h]\<rparr>)"
  unfolding loadDocuments_def Let_def
  by (simp add: fp hit cache_get_def readTMP_def JSON_parse_def)

lemma ex_dir_fingerprint: "getDirectoryHash Number_toString ex_dir = Inr ex_fingerprint"
  by (simp add: ex_dir_hash ex_fingerprint_def)

text \<open>
  C6 as stated fails: the document of a PDF file without document information has the
  property \<open>info\<close> with the value \<open>undefined\<close>; \<open>JSON.stringify\<close> leaves the property
  out, so what is read back has no such property.
\<close>

theorem cache_roundtrip_counterexample:
  "fst (cache_put (js ''f'') [ex_pdf_doc] ex_world) = Inr ()
   \<and> fst (cache_get (js ''f'') (snd (cache_put (js ''f'') [ex_pdf_doc] ex_world)))
      = Some (JArr [JObj [(js ''pageContent'', JStr (js ''Chapter 1'')),
                          (js ''metadata'', JObj [(js ''source'', JStr (js ''a.pdf''))])]])
   \<and> fst (cache_get (js ''f'') (snd (cache_put (js ''f'') [ex_pdf_doc] ex_world)))
      \<noteq> Some (documents_value [ex_pdf_doc])"
  by (simp add: cache_put_def cache_get_def JSON_stringify_def cacheTMP_def readTMP_def
      JSON_parse_def ex_world_def ex_pdf_doc_def documents_value_def document_value_def
      json_property_def json_element_def js_def)

text \<open>
  C6, amended. For every fingerprint and every list of documents whose metadata is clean
  (no \<open>undefined\<close>, every number finite and not minus zero), a successful \<open>put\<close>
  followed by \<open>get\<close> returns the documents field for field. After a miss that stored
  such documents, the next run on the same directory is a hit: whatever the loader
  would answer, it returns the value that the miss returned, and its only calls are those
  of the fingerprint and one read of the entry; the loader is not called and nothing is
  written.
\<close>

theorem cache_roundtrip:
  assumes wr: "writable w (tmp_name f)"
    and clean: "list_all (\<lambda>d. json_clean (JObj (metadata d))) docs"
  shows "fst (cache_put f docs w) = Inr ()
       \<and> fst (cache_get f (snd (cache_put f docs w))) = Some (documents_value docs)
       \<and> (getDirectoryHash num_str files = Inr f
            \<and> (tmp w (tmp_name f) = None \<or> (\<exists>bs. tmp w (tmp_name f) = Some (Unparsable bs)))
            \<and> loader files = Inr docs
          \<longrightarrow> (\<exists>w'. loadDocuments loader num_str files True w
                       = (Inr (documents_value (preProcessDocuments docs)), w')
                    \<and> loadDocuments loader' num_str files True w'
                       = (Inr (documents_value (preProcessDocuments docs)),
                          w'\<lparr>calls := calls w' @ getDirectoryHash_calls files @ [ReadTMP f]\<rparr>)))"
proof (intro conjI impI)
  show "fst (cache_put f docs w) = Inr ()"
    using wr json_of_documents[OF clean]
    by (simp add: cache_put_def JSON_stringify_def cacheTMP_def)
  show "fst (cache_get f (snd (cache_put f docs w))) = Some (documents_value docs)"
    using wr json_of_documents[OF clean]
    by (simp add: cache_put_def cache_get_def JSON_stringify_def cacheTMP_def readTMP_def
        JSON_parse_def)
next
  assume h: "getDirectoryHash num_str files = Inr f
            \<and> (tmp w (tmp_name f) = None \<or> (\<exists>bs. tmp w (tmp_name f) = Some (Unparsable bs)))
            \<and> loader files = Inr docs"
  from h have fp: "getDirectoryHash num_str files = Inr f" by (rule conjunct1)
  from h have miss: "tmp w (tmp_name f) = None \<or> (\<exists>bs. tmp w (tmp_name f) = Some (Unparsable bs))"
    by (rule conjunct1[OF conjunct2])
  from h have ld: "loader files = Inr docs" by (rule conjunct2[OF conjunct2])
  let ?P = "preProcessDocuments docs"
  from load_miss_ok[where loader = loader, OF fp miss ld wr] obtain data
    where data: "JSON_stringify (documents_value ?P) = Some data"
      and run1: "loadDocuments loader num_str files True w =
         (Inr (documents_value ?P),
          w\<lparr>tmp := (tmp w)(tmp_name f \<mapsto> data),
            calls := calls w @ getDirectoryHash_calls files @ [ReadTMP f, Load, WriteTMP f]\<rparr>)"
    by blast
  let ?w' = "w\<lparr>tmp := (tmp w)(tmp_name f \<mapsto> data),
            calls := calls w @ getDirectoryHash_calls files @ [ReadTMP f, Load, WriteTMP f]\<rparr>"
  have "json_of (documents_value ?P) = Some (documents_value ?P)"
    by (rule json_of_documents[OF clean_preProcessDocuments[OF clean]])
  with data have d: "data = JSONText (documents_value ?P)"
    by (simp add: JSON_stringify_def)
  have run2: "loadDocuments loader' num_str files True ?w'
      = (Inr (documents_value ?P),
         ?w'\<lparr>calls := calls ?w' @ getDirectoryHash_calls files @ [ReadTMP f]\<rparr>)"
    by (rule load_hit[OF fp]) (simp add: d)
  from run1 run2
  show "\<exists>w'. loadDocuments loader num_str files True w = (Inr (documents_value ?P), w')
          \<and> loadDocuments loader' num_str files True w'
             = (Inr (documents_value ?P),
                w'\<lparr>calls := calls w' @ getDirectoryHash_calls files @ [ReadTMP f]\<rparr>)"
    by blast
qed

theorem cache_roundtrip_witness:
  "writable ex_world (tmp_name ex_fingerprint)
   \<and> list_all (\<lambda>d. json_clean (JObj (metadata d))) [ex_text_doc]
   \<and> getDirectoryHash Number_toString ex_dir = Inr ex_fingerprint
   \<and> tmp ex_world (tmp_name ex_fingerprint) = None
   \<and> fst (cache_get ex_fingerprint (snd (cache_put ex_fingerprint [ex_text_doc] ex_world)))
      = Some (documents_value [ex_text_doc])
   \<and> fst (loadDocuments (\<lambda>fs. Inr [ex_text_doc]) Number_toString ex_dir True ex_world)
      = Inr (documents_value (preProcessDocuments [ex_text_doc]))
   \<and> fst (loadDocuments (\<lambda>fs. Inl LoaderError) Number_toString ex_dir True
            (snd (loadDocuments (\<lambda>fs. Inr [ex_text_doc]) Number_toString ex_dir True ex_world)))
      = Inr (documents_value (preProcessDocuments [ex_text_doc]))
   \<and> calls (snd (loadDocuments (\<lambda>fs. Inl LoaderError) Number_toString ex_dir True
            (snd (loadDocuments (\<lambda>fs. Inr [ex_text_doc]) Number_toString ex_dir True ex_world))))
      = calls (snd (loadDocuments (\<lambda>fs. Inr [ex_text_doc]) Number_toString ex_dir True ex_world))
        @ getDirectoryHash_calls ex_dir @ [ReadTMP ex_fingerprint]"
proof -
  let ?V = "documents_value (preProcessDocuments [ex_text_doc])"
  let ?run1 = "loadDocuments (\<lambda>fs. Inr [ex_text_doc]) Number_toString ex_dir True ex_world"
  have wr: "writable ex_world (tmp_name ex_fingerprint)"
    by (simp add: ex_world_def)
  have clean: "list_all (\<lambda>d. json_clean (JObj (metadata d))) [ex_text_doc]"
    by (simp add: ex_text_doc_def)
  have miss: "tmp ex_world (tmp_name ex_fingerprint) = None"
    by (simp add: ex_world_def)
  note inst = cache_roundtrip[OF wr clean, where num_str = Number_toString and files = ex_dir
      and loader = "\<lambda>fs. Inr [ex_text_doc]" and loader' = "\<lambda>fs. Inl LoaderError"]
  from inst have get: "fst (cache_get ex_fingerprint (snd (cache_put ex_fingerprint [ex_text_doc] ex_world)))
      = Some (documents_value [ex_text_doc])"
    by (rule conjunct1[OF conjunct2])
  from inst ex_dir_fingerprint miss
  have "\<exists>w'. ?run1 = (Inr ?V, w')
      \<and> loadDocuments (\<lambda>fs. Inl LoaderError) Number_toString ex_dir True w'
         = (Inr ?V, w'\<lparr>calls := calls w' @ getDirectoryHash_calls ex_dir @ [ReadTMP ex_fingerprint]\<rparr>)"
    by (simp only: simp_thms)
  then obtain w' where r1: "?run1 = (Inr ?V, w')"
    and r2: "loadDocuments (\<lambda>fs. Inl LoaderError) Number_toString ex_dir True w'
         = (Inr ?V, w'\<lparr>calls := calls w' @ getDirectoryHash_calls ex_dir @ [ReadTMP ex_fingerprint]\<rparr>)"
    by blast
  from r1 have a: "fst ?run1 = Inr ?V" and w': "snd ?run1 = w'" by simp_all
  from r2 have b: "fst (loadDocuments (\<lambda>fs. Inl LoaderError) Number_toString ex_dir True (snd ?run1))
      = Inr ?V"
    by (simp add: w')
  from r2 have c: "calls (snd (loadDocuments (\<lambda>fs. Inl LoaderError) Number_toString ex_dir True (snd ?run1)))
      = calls (snd ?run1) @ getDirectoryHash_calls ex_dir @ [ReadTMP ex_fingerprint]"
    by (simp add: w')
  from wr clean ex_dir_fingerprint miss get a b c show ?thesis by (intro conjI)
qed

section \<open>Ingestion\<close>

text \<open>The calls of a run whose lookup misses: the loader is called in every case.\<close>

lemma load_miss_calls:
  assumes fp: "getDirectoryHash num_str files = Inr h"
    and miss: "tmp w (tmp_name h) = None \<or> (\<exists>bs. tmp w (tmp_name h) = Some (Unparsable bs))"
  shows "\<exists>cs. calls (snd (loadDocuments loader num_str files True w))
           = calls w @ getDirectoryHash_calls files @ [ReadTMP h, Load] @ cs"
proof -
  let ?w1 = "w\<lparr>calls := calls w @ getDirectoryHash_calls files\<rparr>"
  have "tmp ?w1 (tmp_name h) = None \<or> (\<exists>bs. tmp ?w1 (tmp_name h) = Some (Unparsable bs))"
    using miss by simp
  then have g: "cache_get h ?w1 = (None, ?w1\<lparr>calls := calls ?w1 @ [ReadTMP h]\<rparr>)"
    by (rule cache_get_miss)
  show ?thesis
  proof (cases "loader files")
    case (Inl e)
    then have "calls (snd (loadDocuments loader num_str files True w))
        = calls w @ getDirectoryHash_calls files @ [ReadTMP h, Load] @ []"
      unfolding loadDocuments_def Let_def by (simp add: fp g)
    then show ?thesis by (rule exI)
  next
    case (Inr docs)
    then have "calls (snd (loadDocuments loader num_str files True w))
        = calls w @ getDirectoryHash_calls files @ [ReadTMP h, Load] @ [WriteTMP h]"
      unfolding loadDocuments_def Let_def
      by (simp add: fp g cache_put_def JSON_stringify_def documents_value_def cacheTMP_def)
    then show ?thesis by (rule exI)
  qed
qed

text \<open>
  C7 as stated fails: the entry of the fingerprint is missing and the temporary
  directory cannot be written; the loader answers, but the error of the write reaches the
  caller, no documents are returned and nothing is stored.
\<close>

theorem loadDocuments_miss_counterexample:
  "getDirectoryHash Number_toString ex_dir = Inr ex_fingerprint
   \<and> tmp ex_world_readonly (tmp_name ex_fingerprint) = None
   \<and> fst (loadDocuments (\<lambda>fs. Inr [ex_text_doc]) Number_toString ex_dir True ex_world_readonly)
      = Inl IOError
   \<and> tmp (snd (loadDocuments (\<lambda>fs. Inr [ex_text_doc]) Number_toString ex_dir True
                 ex_world_readonly))
        (tmp_name ex_fingerprint) = None"
proof -
  have m: "tmp ex_world_readonly (tmp_name ex_fingerprint) = None"
    by (simp add: ex_world_readonly_def)
  have r: "loadDocuments (\<lambda>fs. Inr [ex_text_doc]) Number_toString ex_dir True ex_world_readonly
      = (Inl IOError,
         ex_world_readonly\<lparr>calls := getDirectoryHash_calls ex_dir
            @ [ReadTMP ex_fingerprint, Load, WriteTMP ex_fingerprint]\<rparr>)"
    unfolding loadDocuments_def Let_def
    by (simp add: ex_dir_fingerprint cache_get_def readTMP_def cache_put_def JSON_stringify_def
        documents_value_def cacheTMP_def ex_world_readonly_def)
  have a: "fst (loadDocuments (\<lambda>fs. Inr [ex_text_doc]) Number_toString ex_dir True ex_world_readonly)
      = Inl IOError"
    by (simp add: r)
  have b: "tmp (snd (loadDocuments (\<lambda>fs. Inr [ex_text_doc]) Number_toString ex_dir True
                 ex_world_readonly))
        (tmp_name ex_fingerprint) = None"
    by (simp add: r m)
  from ex_dir_fingerprint m a b show ?thesis by (intro conjI)
qed

text \<open>
  C7, amended. Where the fingerprint has been computed and its cache entry is missing
  or does not parse, no error of the lookup reaches the caller: \<open>loadDocuments\<close> goes on
  as on a miss, its calls after the fingerprint are the read of the entry and then the
  loader. An error of the loader is the error of \<open>loadDocuments\<close>. When the loader
  answers and the entry can be written, \<open>loadDocuments\<close> returns the preprocessed
  documents and leaves their text under the fingerprint, after one read of the entry, one
  call of the loader and one write.
\<close>

theorem loadDocuments_miss:
  assumes fp: "getDirectoryHash num_str files = Inr h"
    and miss: "tmp w (tmp_name h) = None \<or> (\<exists>bs. tmp w (tmp_name h) = Some (Unparsable bs))"
  shows "(\<exists>cs. calls (snd (loadDocuments loader num_str files True w))
             = calls w @ getDirectoryHash_calls files @ [ReadTMP h, Load] @ cs)
       \<and> (loader files = Inl e \<longrightarrow> fst (loadDocuments loader num_str files True w) = Inl e)
       \<and> (loader files = Inr docs \<and> writable w (tmp_name h)
          \<longrightarrow> (\<exists>data. JSON_stringify (documents_value (preProcessDocuments docs)) = Some data \<and>
                loadDocuments loader num_str files True w =
                  (Inr (documents_value (preProcessDocuments docs)),
                   w\<lparr>tmp := (tmp w)(tmp_name h \<mapsto> data),
                     calls := calls w @ getDirectoryHash_calls files
                              @ [ReadTMP h, Load, WriteTMP h]\<rparr>)))"
proof (intro conjI impI)
  show "\<exists>cs. calls (snd (loadDocuments loader num_str files True w))
             = calls w @ getDirectoryHash_calls files @ [ReadTMP h, Load] @ cs"
    by (rule load_miss_calls[OF fp miss])
next
  assume "loader files = Inl e"
  with load_miss[where loader = loader, OF fp miss]
  show "fst (loadDocuments loader num_str files True w) = Inl e" by simp
next
  assume a: "loader files = Inr docs \<and> writable w (tmp_name h)"
  from a have ld: "loader files = Inr docs" by (rule conjunct1)
  from a have wr: "writable w (tmp_name h)" by (rule conjunct2)
  show "\<exists>data. JSON_stringify (documents_value (preProcessDocuments docs)) = Some data \<and>
                loadDocuments loader num_str files True w =
                  (Inr (documents_value (preProcessDocuments docs)),
                   w\<lparr>tmp := (tmp w)(tmp_name h \<mapsto> data),
                     calls := calls w @ getDirectoryHash_calls files
                              @ [ReadTMP h, Load, WriteTMP h]\<rparr>)"
    by (rule load_miss_ok[where loader = loader, OF fp miss ld wr])
qed

theorem loadDocuments_miss_witness:
  "getDirectoryHash Number_toString ex_dir = Inr ex_fingerprint
   \<and> tmp ex_world_corrupt (tmp_name ex_fingerprint) = Some (Unparsable [0x7B])
   \<and> writable ex_world_corrupt (tmp_name ex_fingerprint)
   \<and> fst (loadDocuments (\<lambda>fs. Inr [ex_text_doc]) Number_toString ex_dir True ex_world_corrupt)
      = Inr (documents_value (preProcessDocuments [ex_text_doc]))
   \<and> tmp (snd (loadDocuments (\<lambda>fs. Inr [ex_text_doc]) Number_toString ex_dir True ex_world_corrupt))
        (tmp_name ex_fingerprint)
      = JSON_stringify (documents_value (preProcessDocuments [ex_text_doc]))
   \<and> calls (snd (loadDocuments (\<lambda>fs. Inr [ex_text_doc]) Number_toString ex_dir True
                   ex_world_corrupt))
      = getDirectoryHash_calls ex_dir @ [ReadTMP ex_fingerprint, Load, WriteTMP ex_fingerprint]"
proof -
  have entry: "tmp ex_world_corrupt (tmp_name ex_fingerprint) = Some (Unparsable [0x7B])"
    by (simp add: ex_world_corrupt_def)
  then have miss: "tmp ex_world_corrupt (tmp_name ex_fingerprint) = None
      \<or> (\<exists>bs. tmp ex_world_corrupt (tmp_name ex_fingerprint) = Some (Unparsable bs))"
    by blast
  have wr: "writable ex_world_corrupt (tmp_name ex_fingerprint)"
    by (simp add: ex_world_corrupt_def)
  note inst = loadDocuments_miss[OF ex_dir_fingerprint miss,
      where loader = "\<lambda>fs. Inr [ex_text_doc]" and docs = "[ex_text_doc]"]
  from inst wr
  have "\<exists>data. JSON_stringify (documents_value (preProcessDocuments [ex_text_doc])) = Some data \<and>
          loadDocuments (\<lambda>fs. Inr [ex_text_doc]) Number_toString ex_dir True ex_world_corrupt =
            (Inr (documents_value (preProcessDocuments [ex_text_doc])),
             ex_world_corrupt\<lparr>tmp := (tmp ex_world_corrupt)(tmp_name ex_fingerprint \<mapsto> data),
               calls := calls ex_world_corrupt @ getDirectoryHash_calls ex_dir
                        @ [ReadTMP ex_fingerprint, Load, WriteTMP ex_fingerprint]\<rparr>)"
    by (simp only: simp_thms)
  then obtain data
    where data: "JSON_stringify (documents_value (preProcessDocuments [ex_text_doc])) = Some data"
      and run1: "loadDocuments (\<lambda>fs. Inr [ex_text_doc]) Number_toString ex_dir True ex_world_corrupt =
            (Inr (documents_value (preProcessDocuments [ex_text_doc])),
             ex_world_corrupt\<lparr>tmp := (tmp ex_world_corrupt)(tmp_name ex_fingerprint \<mapsto> data),
               calls := calls ex_world_corrupt @ getDirectoryHash_calls ex_dir
                        @ [ReadTMP ex_fingerprint, Load, WriteTMP ex_fingerprint]\<rparr>)"
    by blast
  have r: "fst (loadDocuments (\<lambda>fs. Inr [ex_text_doc]) Number_toString ex_dir True ex_world_corrupt)
      = Inr (documents_value (preProcessDocuments [ex_text_doc]))"
    by (simp add: run1)
  have s: "tmp (snd (loadDocuments (\<lambda>fs. Inr [ex_text_doc]) Number_toString ex_dir True ex_world_corrupt))
        (tmp_name ex_fingerprint)
      = JSON_stringify (documents_value (preProcessDocuments [ex_text_doc]))"
    by (simp add: run1 data)
  have c0: "calls ex_world_corrupt = []"
    by (simp add: ex_world_corrupt_def)
  have "calls (snd (loadDocuments (\<lambda>fs. Inr [ex_text_doc]) Number_toString ex_dir True
                   ex_world_corrupt))
      = calls ex_world_corrupt @ getDirectoryHash_calls ex_dir
        @ [ReadTMP ex_fingerprint, Load, WriteTMP ex_fingerprint]"
    by (simp add: run1)
  then have c: "calls (snd (loadDocuments (\<lambda>fs. Inr [ex_text_doc]) Number_toString ex_dir True
                   ex_world_corrupt))
      = getDirectoryHash_calls ex_dir @ [ReadTMP ex_fingerprint, Load, WriteTMP ex_fingerprint]"
    by (simp only: c0 append_Nil)
  from ex_dir_fingerprint entry wr r s c show ?thesis by (intro conjI)
qed

text \<open>
  C9. With the cache switched off \<open>loadDocuments\<close> returns the result of the full load
  and preprocessing (or the error of the loader); the only call is the one of the loader
  (no \<open>glob\<close>, no \<open>fs.stat\<close>, no read and no write of a cache entry), and the files of
  the temporary directory are as they were. The result does not depend on the state of
  the cache.
\<close>

theorem loadDocuments_no_cache:
  "loadDocuments loader num_str files False w =
     (case loader files of
        Inl e \<Rightarrow> Inl e
      | Inr docs \<Rightarrow> Inr (documents_value (preProcessDocuments docs)),
      w\<lparr>calls := calls w @ [Load]\<rparr>)
   \<and> tmp (snd (loadDocuments loader num_str files False w)) = tmp w
   \<and> fst (loadDocuments loader num_str files False w)
     = fst (loadDocuments loader num_str' files False w')"
  by (simp add: loadDocuments_def split: sum.splits)



section \<open>Runs of the batch runner\<close>

lemma run_events_append:
  "run_events D n out (a @ b) st =
     (case run_events D n out a st of None \<Rightarrow> None | Some st' \<Rightarrow> run_events D n out b st')"
  by (induction a arbitrary: st) (auto split: option.splits)




lemma generateQuestions_answer:
  "generateQuestions d (\<lambda>prompt. Inr raw) n = Inr (parseQuestions raw)"
  "generateQuestions d (\<lambda>prompt. Inl e) n = Inl e"
  by (simp_all add: generateQuestions_def)

text \<open>What an event that can happen does to the state.\<close>

lemma step_cases:
  assumes "execute_step D n out ev st = Some st'"
  obtains
    (completed) i raw where "ev = Completion i (Inr raw)" "i < length D" "i < length (tasks st)"
      "tasks st ! i = Calling"
      "tasks st' = (tasks st)[i := Writing (questions st @ [parseQuestions raw])]"
      "questions st' = questions st @ [parseQuestions raw]"
      "outcome st' = outcome st" "summary st' = summary st"
  | (call_failed) i e where "ev = Completion i (Inl e)" "i < length D" "i < length (tasks st)"
      "tasks st ! i = Calling"
      "tasks st' = (tasks st)[i := Rejected e]"
      "questions st' = questions st"
      "outcome st' = (if outcome st = Pending then Failed e else outcome st)"
      "summary st' = summary st"
  | (written) i snapshot where "ev = Written i" "i < length (tasks st)"
      "tasks st ! i = Writing snapshot"
      "tasks st' = (tasks st)[i := Fulfilled]"
      "questions st' = questions st"
      "outcome st' = (if outcome st = Pending \<and> all_fulfilled ((tasks st)[i := Fulfilled])
                      then Resolved else outcome st)"
      "summary st' = (if outcome st = Pending \<and> all_fulfilled ((tasks st)[i := Fulfilled])
                      then Some (succeed_text (questions st) (length D) out) else summary st)"
      "output_file st' = (if overlapped st then Indeterminate else Holds snapshot)"
  | (write_failed) i e snapshot where "ev = WriteFailed i e" "i < length (tasks st)"
      "tasks st ! i = Writing snapshot"
      "tasks st' = (tasks st)[i := Rejected e]"
      "questions st' = questions st"
      "outcome st' = (if outcome st = Pending then Failed e else outcome st)"
      "summary st' = summary st"
      "output_file st' = Indeterminate"
proof (cases ev)
  case (Completion i answer)
  show ?thesis
  proof (cases answer)
    case (Inl e)
    with Completion assms show ?thesis
      by (intro call_failed[of i e])
         (auto simp: execute_step_def generateQuestions_answer reject_all_def split: if_splits)
  next
    case (Inr raw)
    with Completion assms show ?thesis
      by (intro completed[of i raw])
         (auto simp: execute_step_def generateQuestions_answer Let_def split: if_splits)
  qed
next
  case (Written i)
  from assms Written have i: "i < length (tasks st)"
    by (auto simp: execute_step_def split: if_splits)
  from assms Written i obtain snapshot where w: "tasks st ! i = Writing snapshot"
    by (cases "tasks st ! i") (auto simp: execute_step_def)
  from assms Written i w
  have st': "st' = resolve_all (length D) out
      (st\<lparr>tasks := (tasks st)[i := Fulfilled],
         output_file := (if overlapped st then Indeterminate else Holds snapshot),
         overlapped := overlapped st \<and> in_flight ((tasks st)[i := Fulfilled])\<rparr>)"
    by (simp add: execute_step_def)
  show ?thesis
    by (rule written[of i snapshot]) (simp_all add: Written i w st' resolve_all_def)
next
  case (WriteFailed i e)
  from assms WriteFailed have i: "i < length (tasks st)"
    by (auto simp: execute_step_def split: if_splits)
  from assms WriteFailed i obtain snapshot where w: "tasks st ! i = Writing snapshot"
    by (cases "tasks st ! i") (auto simp: execute_step_def)
  from assms WriteFailed i w
  have st': "st' = reject_all e
      (st\<lparr>tasks := (tasks st)[i := Rejected e], output_file := Indeterminate,
         overlapped := overlapped st \<and> in_flight ((tasks st)[i := Rejected e])\<rparr>)"
    by (simp add: execute_step_def)
  show ?thesis
    by (rule write_failed[of i e snapshot]) (simp_all add: WriteFailed i w st' reject_all_def)
qed

lemma in_set_update_other: "y \<in> set xs \<Longrightarrow> xs ! i \<noteq> y \<Longrightarrow> y \<in> set (xs[i := x])"
proof -
  assume y: "y \<in> set xs" and ne: "xs ! i \<noteq> y"
  from y obtain j where j: "j < length xs" "xs ! j = y" by (auto simp: in_set_conv_nth)
  with ne have "j \<noteq> i" by auto
  with j have "xs[i := x] ! j = y" "j < length (xs[i := x])" by simp_all
  then show ?thesis by (metis nth_mem)
qed


lemma step_rejected_stable:
  "execute_step D n out ev st = Some st' \<Longrightarrow> Rejected e \<in> set (tasks st)
     \<Longrightarrow> Rejected e \<in> set (tasks st')"
  by (erule step_cases) (simp_all add: in_set_update_other)

lemma run_rejected_stable:
  "run_events D n out evs st = Some st' \<Longrightarrow> Rejected e \<in> set (tasks st)
     \<Longrightarrow> Rejected e \<in> set (tasks st')"
proof (induction evs arbitrary: st)
  case Nil
  then show ?case by simp
next
  case (Cons ev evs)
  from Cons.prems(1) obtain s1 where s1: "execute_step D n out ev st = Some s1"
    and r: "run_events D n out evs s1 = Some st'"
    by (auto split: option.splits)
  from s1 Cons.prems(2) have "Rejected e \<in> set (tasks s1)" by (rule step_rejected_stable)
  with r show ?case by (rule Cons.IH)
qed





lemma failed_completion_rejects:
  assumes run: "run_events D n out evs st = Some st'"
    and ev: "Completion i (Inl e) \<in> set evs"
  shows "Rejected e \<in> set (tasks st')"
proof -
  from ev obtain a b where evs: "evs = a @ Completion i (Inl e) # b"
    by (auto dest: split_list)
  from run obtain s1 s2 where s1: "run_events D n out a st = Some s1"
    and s2: "execute_step D n out (Completion i (Inl e)) s1 = Some s2"
    and r: "run_events D n out b s2 = Some st'"
    unfolding evs run_events_append by (auto split: option.splits)
  from s2 have "Rejected e \<in> set (tasks s2)"
    by (cases rule: step_cases) (auto intro: set_update_memI)
  with r show ?thesis by (rule run_rejected_stable)
qed










section \<open>The claims about the batch runner\<close>



text \<open>
  When the two completions arrive before a write has landed, the two writes overlap and
  the content of the output file is not determined, although both tasks succeed.
\<close>

lemma execute_overlapping_writes:
  "map_option output_file (execute ex_docs2 3 ex_output ex_events_overlap) = Some Indeterminate
   \<and> map_option tasks (execute ex_docs2 3 ex_output ex_events_overlap)
       = Some [Fulfilled, Fulfilled]"
  by code_simp







end
